theory Spec2Isabelle
  imports Main "HOL-Library.AList"
begin

section \<open>The filter-to-SQL compiler of \<^verbatim>\<open>api/src/utils/apply-query.ts\<close>\<close>

text \<open>
  The compiler walks a loosely typed filter object and calls methods of a Knex query
  builder. The builder is an external library: the model records the calls the compiler
  makes on it, in order, as a list of \<open>call\<close> values. A callback handed to the builder
  (\<^verbatim>\<open>where(cb)\<close>, \<^verbatim>\<open>whereIn(col, cb)\<close>) is not run by the compiler but by the
  builder when the query is compiled to SQL (the source says so at the \<^verbatim>\<open>@NOTE\<close> in
  \<^verbatim>\<open>addWhereClauses\<close>); the model stores in the call what running the callback yields:
  the calls it makes on the nested builder, or the exception it throws.
\<close>

subsection \<open>JavaScript values\<close>

text \<open>
  Filter objects and comparands. An object is the list of its own enumerable entries in
  the order \<^verbatim>\<open>Object.keys\<close> lists them. Numbers are carried through the compiler
  unchanged, only their identity matters, so integers stand for them. Strings are ASCII.
\<close>

datatype json =
    JUndefined
  | JNull
  | JBool bool
  | JNum int
  | JStr string
  | JArr "json list"
  | JObj "(string \<times> json) list"

text \<open>
  \<open>InvalidQuery\<close> is the source's \<^verbatim>\<open>InvalidQueryException\<close> with its two messages.
  \<open>TypeError\<close> is the JavaScript exception of a property read on \<^verbatim>\<open>undefined\<close> or
  \<^verbatim>\<open>null\<close> and of a call of a missing method. \<open>NotAFilter\<close> marks an input outside
  the declared type \<^verbatim>\<open>Filter\<close> (an array or a string where a filter object is
  iterated), which the model does not follow.
\<close>

datatype message =
    NotRelationalField string string
  | ScopeRequired

datatype error =
    InvalidQuery message
  | TypeError
  | NotAFilter

text \<open>\<^verbatim>\<open>s.split(c)\<close> for a one-character separator: never empty.\<close>

fun split_on :: "char \<Rightarrow> string \<Rightarrow> string list" where
  "split_on c [] = [[]]"
| "split_on c (x # xs) =
     (if x = c then [] # split_on c xs
      else (case split_on c xs of
              [] \<Rightarrow> [[x]]
            | p # ps \<Rightarrow> (x # p) # ps))"

text \<open>An array read \<^verbatim>\<open>xs[i]\<close>: \<^verbatim>\<open>undefined\<close> (here \<open>None\<close>) out of range.\<close>

fun nth_opt :: "'a list \<Rightarrow> nat \<Rightarrow> 'a option" where
  "nth_opt [] i = None"
| "nth_opt (x # xs) 0 = Some x"
| "nth_opt (x # xs) (Suc i) = nth_opt xs i"

text \<open>\<^verbatim>\<open>s.startsWith('_')\<close>.\<close>

fun startsWith_underscore :: "string \<Rightarrow> bool" where
  "startsWith_underscore [] = False"
| "startsWith_underscore (c # cs) = (c = CHR ''_'')"

text \<open>Truthiness of a value, as \<^verbatim>\<open>if (v)\<close> tests it.\<close>

fun truthy :: "json \<Rightarrow> bool" where
  "truthy JUndefined = False"
| "truthy JNull = False"
| "truthy (JBool b) = b"
| "truthy (JNum n) = (n \<noteq> 0)"
| "truthy (JStr s) = (s \<noteq> [])"
| "truthy (JArr xs) = True"
| "truthy (JObj kvs) = True"

text \<open>
  \<^verbatim>\<open>v.length\<close>: the length of a string or an array, the own property of that name of
  an object, \<^verbatim>\<open>undefined\<close> on a number or a boolean, a TypeError on \<^verbatim>\<open>null\<close> and
  \<^verbatim>\<open>undefined\<close>.
\<close>

fun js_length :: "json \<Rightarrow> error + json" where
  "js_length JUndefined = Inl TypeError"
| "js_length JNull = Inl TypeError"
| "js_length (JBool b) = Inr JUndefined"
| "js_length (JNum n) = Inr JUndefined"
| "js_length (JStr s) = Inr (JNum (int (length s)))"
| "js_length (JArr xs) = Inr (JNum (int (length xs)))"
| "js_length (JObj kvs) =
     (case map_of kvs ''length'' of None \<Rightarrow> Inr JUndefined | Some v \<Rightarrow> Inr v)"

text \<open>
  \<^verbatim>\<open>Object.keys(v).length === 0\<close>, the test of the \<^verbatim>\<open>_or\<close> short-circuit:
  \<^verbatim>\<open>Object.keys\<close> throws on \<^verbatim>\<open>null\<close> and \<^verbatim>\<open>undefined\<close>, lists the indices of a
  string or an array and nothing for a number or a boolean.
\<close>

fun has_no_keys :: "json \<Rightarrow> error + bool" where
  "has_no_keys JUndefined = Inl TypeError"
| "has_no_keys JNull = Inl TypeError"
| "has_no_keys (JBool b) = Inr True"
| "has_no_keys (JNum n) = Inr True"
| "has_no_keys (JStr s) = Inr (s = [])"
| "has_no_keys (JArr xs) = Inr (xs = [])"
| "has_no_keys (JObj kvs) = Inr (kvs = [])"

text \<open>
  \<^verbatim>\<open>value.some((subFilter) => Object.keys(subFilter).length === 0)\<close> on the elements of
  an array: stops at the first element without keys, throws where \<^verbatim>\<open>Object.keys\<close>
  does.
\<close>

fun some_empty :: "json list \<Rightarrow> error + bool" where
  "some_empty [] = Inr False"
| "some_empty (x # xs) =
     (case has_no_keys x of
        Inl e \<Rightarrow> Inl e
      | Inr True \<Rightarrow> Inr True
      | Inr False \<Rightarrow> some_empty xs)"

text \<open>
  \<^verbatim>\<open>Object.entries(filter)\<close> of the \<^verbatim>\<open>for\<close> loops. A filter is an object; a number or
  a boolean has no entries, \<^verbatim>\<open>null\<close> and \<^verbatim>\<open>undefined\<close> throw.
\<close>

fun object_entries :: "json \<Rightarrow> error + (string \<times> json) list" where
  "object_entries (JObj kvs) = Inr kvs"
| "object_entries JUndefined = Inl TypeError"
| "object_entries JNull = Inl TypeError"
| "object_entries (JBool b) = Inr []"
| "object_entries (JNum n) = Inr []"
| "object_entries (JStr s) = Inl NotAFilter"
| "object_entries (JArr xs) = Inl NotAFilter"

subsection \<open>The schema\<close>

record relation_meta =
  one_field :: "string option"
  one_collection_field :: "string option"

record relation =
  collection :: string
  field :: string
  related_collection :: "string option"
  meta :: "relation_meta option"

record collection_overview =
  primary :: string
  fields_map :: "(string \<times> string) list"

record schema_overview =
  collections :: "(string \<times> collection_overview) list"
  relations :: "relation list"

datatype relation_type = M2O | O2M | M2A

text \<open>\<^verbatim>\<open>relation.meta?.one_field\<close>.\<close>

definition meta_one_field :: "relation \<Rightarrow> string option" where
  "meta_one_field r = (case meta r of None \<Rightarrow> None | Some m \<Rightarrow> one_field m)"

text \<open>
  The predicate of the three \<^verbatim>\<open>relations.find(...)\<close> calls: the relation leaves the
  parent collection through the field, or arrives at it and names the field as its
  reverse accessor.
\<close>

definition relation_matches :: "string \<Rightarrow> string \<Rightarrow> relation \<Rightarrow> bool" where
  "relation_matches parentCollection pathRoot r \<longleftrightarrow>
     (collection r = parentCollection \<and> field r = pathRoot) \<or>
     (related_collection r = Some parentCollection \<and> meta_one_field r = Some pathRoot)"

definition find_relation :: "schema_overview \<Rightarrow> string \<Rightarrow> string \<Rightarrow> relation option" where
  "find_relation schema parentCollection pathRoot =
     find (relation_matches parentCollection pathRoot) (relations schema)"

text \<open>
  Modelled from the spec: \<^verbatim>\<open>getRelationType\<close> of \<^verbatim>\<open>utils/get-relation-type.ts\<close>
  is imported by the compiler and is not among the sources. The spec derives the type of
  a relation seen from a collection and a field: many-to-any when the related collection
  is absent, many-to-one when the field holds the foreign key, one-to-many when the
  relation is reached through its reverse accessor \<^verbatim>\<open>one_field\<close>. The theorems below
  use the result only through hypotheses on it.
\<close>

definition getRelationType :: "relation \<Rightarrow> string \<Rightarrow> string \<Rightarrow> relation_type option" where
  "getRelationType r coll fld =
     (if collection r = coll \<and> field r = fld
      then (if related_collection r = None then Some M2A else Some M2O)
      else if related_collection r = Some coll \<and> meta_one_field r = Some fld then Some O2M
      else None)"

subsection \<open>Calls on the query builder\<close>

datatype logical = And | Or

text \<open>
  A column argument: \<open>GetColumn table column\<close> is what
  \<^verbatim>\<open>getColumn(knex, table, column, false)\<close> returns (the function is imported, its
  result is passed on untouched); \<open>Key k\<close> is the string \<open>k\<close> passed as it is.
\<close>

datatype column =
    GetColumn "string option" "string option"
  | Key string

text \<open>
  A comparand argument: the value itself, or a template literal
  \<^verbatim>\<open>`pre${value}post`\<close> around it.
\<close>

datatype arg =
    Val json
  | Template string json string

text \<open>The raw fragments of the geometry helper, an external collaborator.\<close>

datatype raw =
    Intersects string json
  | NIntersects string json
  | IntersectsBBox string json
  | NIntersectsBBox string json

text \<open>
  The numbers of a query description (\<^verbatim>\<open>limit\<close>, \<^verbatim>\<open>offset\<close>, \<^verbatim>\<open>page\<close>) are
  IEEE 754 doubles: an integer, a finite number that is no integer (kept by its literal),
  an infinity (\<open>True\<close> for the positive one) or \<^verbatim>\<open>NaN\<close>. \<open>Integer n\<close> is the double
  that holds the integer \<open>n\<close>.
\<close>

datatype js_number =
    Integer int
  | NonInteger string
  | Infinite bool
  | NaN

text \<open>Truthiness of a number: zero and \<^verbatim>\<open>NaN\<close> are falsy.\<close>

fun number_truthy :: "js_number \<Rightarrow> bool" where
  "number_truthy (Integer n) = (n \<noteq> 0)"
| "number_truthy (NonInteger lit) = True"
| "number_truthy (Infinite positive) = True"
| "number_truthy NaN = False"

text \<open>
  A numeric argument of a builder call: a number of the query, or the product or the
  difference the compiler computes from such arguments in double arithmetic. The model
  records the operation and its operands and does not round.
\<close>

datatype js_expr =
    Value js_number
  | Mul js_expr js_expr
  | Sub js_expr js_expr

datatype call =
    OrderBy "(column \<times> string) list"
  | Limit js_number
  | Offset js_expr
  | LeftJoin string string string string
  | LeftJoinOn string string string string "string option" string
  | Where logical column string arg
  | WhereNot logical column string arg
  | WhereNotValue logical column arg
  | WhereNull logical column
  | WhereNotNull logical column
  | WhereIn logical column json
  | WhereNotIn logical column json
  | WhereBetween logical column json
  | WhereNotBetween logical column json
  | WhereRaw logical raw
  | AndWhere logical "call list"
  | WhereWrapped logical "error + call list"
  | WhereInSubquery logical string "error + call list"
  | Select string string
  | From string
  | AndWhereSearch string string
  | GroupBy "string list"
  | Aggregate string string string

text \<open>
  The calls, argument by argument:
  \<^item> \<open>LeftJoin alias table first second\<close> is
    \<^verbatim>\<open>leftJoin({ [alias]: table }, first, second)\<close>;
  \<^item> \<open>LeftJoinOn alias table first second column value\<close> is
    \<^verbatim>\<open>leftJoin({ [alias]: table }, (j) => j.on(first, '=', second).andOnVal(column, '=', value))\<close>,
    whose callback the builder runs at once;
  \<^item> \<open>Where lg col op arg\<close> is \<^verbatim>\<open>dbQuery[lg].where(col, op, arg)\<close>, and so on for the
    other \<^verbatim>\<open>where\<close> methods; \<open>WhereNotValue\<close> is the two-argument
    \<^verbatim>\<open>whereNot(col, value)\<close>;
  \<^item> \<open>AndWhere lg calls\<close> is \<^verbatim>\<open>dbQuery[lg].andWhere((query) => ...)\<close> with the calls
    its callback makes;
  \<^item> \<open>WhereWrapped lg r\<close> is \<^verbatim>\<open>dbQuery[lg].where((subQuery) => ...)\<close> and
    \<open>WhereInSubquery lg col r\<close> is \<^verbatim>\<open>dbQuery[lg].whereIn(col, (subQueryKnex) => ...)\<close>,
    with the outcome \<open>r\<close> of the deferred callback;
  \<^item> \<open>Select field column\<close> is \<^verbatim>\<open>select({ [field]: column })\<close>;
  \<^item> \<open>AndWhereSearch collection term\<close> is the group \<^verbatim>\<open>applySearch\<close> adds,
    \<open>GroupBy\<close> lists the specs handed to \<^verbatim>\<open>applyFunctionToColumnName\<close>, and
    \<open>Aggregate method field as\<close> is \<^verbatim>\<open>dbQuery[method](field, { as })\<close>.
\<close>

subsection \<open>Filter paths and operators\<close>

text \<open>
  \<^verbatim>\<open>getFilterPath\<close>. \<^verbatim>\<open>Object.keys(value)\<close> throws on \<^verbatim>\<open>null\<close> and
  \<^verbatim>\<open>undefined\<close>; the first key of a string or an array is an index, which does not
  start with an underscore, and neither is a plain object; an empty object recurses on
  \<^verbatim>\<open>undefined\<close> and throws there.
\<close>

fun getFilterPath :: "string \<Rightarrow> json \<Rightarrow> error + string list" where
  "getFilterPath key JUndefined = Inl TypeError"
| "getFilterPath key JNull = Inl TypeError"
| "getFilterPath key (JObj []) = Inl TypeError"
| "getFilterPath key (JObj ((k, v) # kvs)) =
     (if startsWith_underscore k then Inr [key]
      else (case getFilterPath k v of
              Inl e \<Rightarrow> Inl e
            | Inr path \<Rightarrow> Inr (key # path)))"
| "getFilterPath key v = Inr [key]"

text \<open>
  \<^verbatim>\<open>getOperation\<close>: the operator and the comparand. An empty object recurses on
  \<^verbatim>\<open>undefined\<close>, where \<^verbatim>\<open>key.startsWith\<close> throws.
\<close>

fun getOperation :: "string \<Rightarrow> json \<Rightarrow> error + (string \<times> json)" where
  "getOperation key v =
     (if startsWith_underscore key \<and> key \<noteq> ''_and'' \<and> key \<noteq> ''_or'' then Inr (key, v)
      else (case v of
              JObj [] \<Rightarrow> Inl TypeError
            | JObj ((k, v') # kvs) \<Rightarrow> getOperation k v'
            | _ \<Rightarrow> Inr (''_eq'', v)))"

subsection \<open>Compiling one leaf: \<^verbatim>\<open>applyFilterToQuery\<close>\<close>

text \<open>
  \<^verbatim>\<open>const [table, column] = key.split('.')\<close> and
  \<^verbatim>\<open>getColumn(knex, table, column, false)\<close>.
\<close>

definition selection :: "string \<Rightarrow> column" where
  "selection key =
     (let parts = split_on CHR ''.'' key in GetColumn (nth_opt parts 0) (nth_opt parts 1))"

text \<open>\<^verbatim>\<open>compareValue.filter((val) => val !== undefined)\<close> when the comparand is an array.\<close>

definition without_undefined :: "json \<Rightarrow> json" where
  "without_undefined v =
     (case v of JArr xs \<Rightarrow> JArr (filter (\<lambda>val. val \<noteq> JUndefined) xs) | _ \<Rightarrow> v)"

text \<open>\<^verbatim>\<open>if (typeof value === 'string') value = value.split(',')\<close>.\<close>

definition comma_split :: "json \<Rightarrow> json" where
  "comma_split v = (case v of JStr s \<Rightarrow> JArr (map JStr (split_on CHR '','' s)) | _ \<Rightarrow> v)"

text \<open>The four operators that run without a value (lines 315 to 333), one \<^verbatim>\<open>if\<close> each.\<close>

definition valueless_calls :: "column \<Rightarrow> string \<Rightarrow> string \<Rightarrow> json \<Rightarrow> logical \<Rightarrow> call list" where
  "valueless_calls selectionRaw key operator compareValue lg =
     (if operator = ''_null'' \<or> (operator = ''_nnull'' \<and> compareValue = JBool False)
      then [WhereNull lg selectionRaw] else []) @
     (if operator = ''_nnull'' \<or> (operator = ''_null'' \<and> compareValue = JBool False)
      then [WhereNotNull lg selectionRaw] else []) @
     (if operator = ''_empty'' \<or> (operator = ''_nempty'' \<and> compareValue = JBool False)
      then [AndWhere lg [Where And (Key key) ''='' (Val (JStr []))]] else []) @
     (if operator = ''_nempty'' \<or> (operator = ''_empty'' \<and> compareValue = JBool False)
      then [AndWhere lg [Where And (Key key) ''!='' (Val (JStr []))]] else [])"

text \<open>The operators from \<^verbatim>\<open>_eq\<close> to \<^verbatim>\<open>_nin\<close> (lines 347 to 407), one \<^verbatim>\<open>if\<close> each.\<close>

definition comparison_calls :: "column \<Rightarrow> string \<Rightarrow> string \<Rightarrow> json \<Rightarrow> logical \<Rightarrow> call list" where
  "comparison_calls selectionRaw key operator compareValue lg =
     (if operator = ''_eq'' then [Where lg selectionRaw ''='' (Val compareValue)] else []) @
     (if operator = ''_neq'' then [WhereNotValue lg selectionRaw (Val compareValue)] else []) @
     (if operator = ''_contains''
      then [Where lg selectionRaw ''like'' (Template ''%'' compareValue ''%'')] else []) @
     (if operator = ''_ncontains''
      then [WhereNot lg selectionRaw ''like'' (Template ''%'' compareValue ''%'')] else []) @
     (if operator = ''_starts_with''
      then [Where lg (Key key) ''like'' (Template [] compareValue ''%'')] else []) @
     (if operator = ''_nstarts_with''
      then [WhereNot lg (Key key) ''like'' (Template [] compareValue ''%'')] else []) @
     (if operator = ''_ends_with''
      then [Where lg (Key key) ''like'' (Template ''%'' compareValue [])] else []) @
     (if operator = ''_nends_with''
      then [WhereNot lg (Key key) ''like'' (Template ''%'' compareValue [])] else []) @
     (if operator = ''_gt'' then [Where lg selectionRaw ''>'' (Val compareValue)] else []) @
     (if operator = ''_gte'' then [Where lg selectionRaw ''>='' (Val compareValue)] else []) @
     (if operator = ''_lt'' then [Where lg selectionRaw ''<'' (Val compareValue)] else []) @
     (if operator = ''_lte'' then [Where lg selectionRaw ''<='' (Val compareValue)] else []) @
     (if operator = ''_in'' then [WhereIn lg selectionRaw (comma_split compareValue)] else []) @
     (if operator = ''_nin'' then [WhereNotIn lg selectionRaw (comma_split compareValue)] else [])"

text \<open>
  The body of the \<^verbatim>\<open>_between\<close> and \<^verbatim>\<open>_nbetween\<close> branches: the length test comes
  first and returns from \<^verbatim>\<open>applyFilterToQuery\<close> (\<open>None\<close>), the split on commas comes
  after it.
\<close>

definition between_calls :: "(json \<Rightarrow> call) \<Rightarrow> json \<Rightarrow> error + call list option" where
  "between_calls method compareValue =
     (case js_length compareValue of
        Inl e \<Rightarrow> Inl e
      | Inr l \<Rightarrow>
          if l \<noteq> JNum 2 then Inr None
          else Inr (Some [method (comma_split compareValue)]))"

text \<open>The geometry operators (lines 429 to 442).\<close>

definition geometry_calls :: "string \<Rightarrow> string \<Rightarrow> json \<Rightarrow> logical \<Rightarrow> call list" where
  "geometry_calls key operator compareValue lg =
     (if operator = ''_intersects'' then [WhereRaw lg (Intersects key compareValue)] else []) @
     (if operator = ''_nintersects'' then [WhereRaw lg (NIntersects key compareValue)] else []) @
     (if operator = ''_intersects_bbox''
      then [WhereRaw lg (IntersectsBBox key compareValue)] else []) @
     (if operator = ''_nintersects_bbox''
      then [WhereRaw lg (NIntersectsBBox key compareValue)] else [])"

definition applyFilterToQuery :: "string \<Rightarrow> string \<Rightarrow> json \<Rightarrow> logical \<Rightarrow> error + call list" where
  "applyFilterToQuery key operator compareValue lg =
     (let selectionRaw = selection key;
          calls0 = valueless_calls selectionRaw key operator compareValue lg
      in if compareValue = JUndefined then Inr calls0
         else
           let cv = without_undefined compareValue;
               calls1 = calls0 @ comparison_calls selectionRaw key operator cv lg
           in case (if operator = ''_between''
                    then between_calls (WhereBetween lg selectionRaw) cv
                    else Inr (Some [])) of
                Inl e \<Rightarrow> Inl e
              | Inr None \<Rightarrow> Inr calls1
              | Inr (Some b) \<Rightarrow>
                  (case (if operator = ''_nbetween''
                         then between_calls (WhereNotBetween lg selectionRaw) cv
                         else Inr (Some [])) of
                     Inl e \<Rightarrow> Inl e
                   | Inr None \<Rightarrow> Inr (calls1 @ b)
                   | Inr (Some nb) \<Rightarrow>
                       Inr (calls1 @ b @ nb @ geometry_calls key operator cv lg)))"

subsection \<open>The alias map\<close>

text \<open>
  \<^verbatim>\<open>aliasMap\<close> is a plain object filled by lodash \<^verbatim>\<open>set\<close> and read by lodash
  \<^verbatim>\<open>get\<close>, both with a path of keys: a tree whose leaves are the generated aliases.
\<close>

datatype alias_value =
    Alias string
  | Nested "(string \<times> alias_value) list"

type_synonym alias_map = "(string \<times> alias_value) list"

text \<open>
  \<^verbatim>\<open>set(object, path, value)\<close>: walks the path, keeps a child that is an object and
  replaces any other child (a missing one, or an alias stored there before) by a fresh
  object, and stores the value under the last key.
\<close>

fun lodash_set :: "alias_map \<Rightarrow> string list \<Rightarrow> string \<Rightarrow> alias_map" where
  "lodash_set obj [] a = obj"
| "lodash_set obj [k] a = AList.update k (Alias a) obj"
| "lodash_set obj (k # k' # ks) a =
     AList.update k
       (Nested (lodash_set (case map_of obj k of Some (Nested child) \<Rightarrow> child | _ \<Rightarrow> [])
                  (k' # ks) a))
       obj"

text \<open>
  \<^verbatim>\<open>get(object, path)\<close>: \<^verbatim>\<open>undefined\<close> (here \<open>None\<close>) when a key is missing on the
  way. A key read on an alias string is taken to be \<^verbatim>\<open>undefined\<close>: path segments
  are field names, not indices or \<^verbatim>\<open>length\<close>.
\<close>

fun lodash_get :: "alias_map \<Rightarrow> string list \<Rightarrow> alias_value option" where
  "lodash_get obj [] = None"
| "lodash_get obj [k] = map_of obj k"
| "lodash_get obj (k # k' # ks) =
     (case map_of obj k of
        Some (Nested child) \<Rightarrow> lodash_get child (k' # ks)
      | _ \<Rightarrow> None)"

text \<open>
  What \<^verbatim>\<open>get\<close> returned, used as a condition (\<^verbatim>\<open>parentAlias ? ... : ...\<close>,
  \<^verbatim>\<open>alias || parent\<close>) and as a string (a path key, a template literal).
\<close>

fun alias_truthy :: "alias_value option \<Rightarrow> bool" where
  "alias_truthy None = False"
| "alias_truthy (Some (Alias a)) = (a \<noteq> [])"
| "alias_truthy (Some (Nested obj)) = True"

fun alias_string :: "alias_value option \<Rightarrow> string" where
  "alias_string None = ''undefined''"
| "alias_string (Some (Alias a)) = a"
| "alias_string (Some (Nested obj)) = ''[object Object]''"

subsection \<open>The join planner: \<^verbatim>\<open>addJoins\<close>\<close>

text \<open>
  The state \<^verbatim>\<open>addJoins\<close> changes: the alias map, the joins put on the root builder,
  and the number of aliases drawn so far. \<^verbatim>\<open>generateAlias\<close> draws five random
  letters; the model takes the sequence of draws as a parameter
  \<open>generateAlias :: nat \<Rightarrow> string\<close>, the \<open>n\<close>-th draw of the compilation being
  \<open>generateAlias n\<close>.
\<close>

record join_state =
  aliasMap :: alias_map
  joins :: "call list"
  drawn :: nat

text \<open>\<^verbatim>\<open>pathParts[0].split(':')[0]\<close> and \<^verbatim>\<open>pathParts[0].split(':')[1]\<close>.\<close>

definition pathRoot_of :: "string \<Rightarrow> string" where
  "pathRoot_of part = (case split_on CHR '':'' part of [] \<Rightarrow> [] | r # _ \<Rightarrow> r)"

definition pathScope_of :: "string \<Rightarrow> string option" where
  "pathScope_of part = nth_opt (split_on CHR '':'' part) 1"

text \<open>\<^verbatim>\<open>!pathScope\<close>: the scope is missing or empty.\<close>

definition no_scope :: "string option \<Rightarrow> bool" where
  "no_scope sc \<longleftrightarrow> (case sc of None \<Rightarrow> True | Some s \<Rightarrow> s = [])"

text \<open>\<^verbatim>\<open>`${parentAlias || parentCollection}`\<close> for an alias that is a string.\<close>

definition alias_or :: "string option \<Rightarrow> string \<Rightarrow> string" where
  "alias_or parentAlias parentCollection =
     (case parentAlias of None \<Rightarrow> parentCollection
      | Some a \<Rightarrow> if a = [] then parentCollection else a)"

text \<open>\<^verbatim>\<open>parentAlias ? [parentAlias, ...pathParts] : pathParts\<close>.\<close>

definition join_key :: "string option \<Rightarrow> string list \<Rightarrow> string list" where
  "join_key parentAlias pathParts =
     (case parentAlias of None \<Rightarrow> pathParts
      | Some a \<Rightarrow> if a = [] then pathParts else a # pathParts)"

text \<open>\<^verbatim>\<open>schema.collections[name].primary\<close>, a TypeError when the collection is missing.\<close>

definition primary_of :: "schema_overview \<Rightarrow> string option \<Rightarrow> error + string" where
  "primary_of schema name =
     (case name of
        None \<Rightarrow> Inl TypeError
      | Some c \<Rightarrow>
          (case map_of (collections schema) c of
             None \<Rightarrow> Inl TypeError
           | Some ov \<Rightarrow> Inr (primary ov)))"

text \<open>The many-to-one join (lines 165 to 171).\<close>

definition join_m2o ::
  "schema_overview \<Rightarrow> relation \<Rightarrow> string \<Rightarrow> string \<Rightarrow> join_state \<Rightarrow> error + join_state" where
  "join_m2o schema rel alias parent st =
     (case primary_of schema (related_collection rel) of
        Inl e \<Rightarrow> Inl e
      | Inr pk \<Rightarrow>
          Inr (st\<lparr>joins := joins st @
                 [LeftJoin alias (case related_collection rel of None \<Rightarrow> [] | Some c \<Rightarrow> c)
                    (parent @ ''.'' @ field rel) (alias @ ''.'' @ pk)]\<rparr>))"

text \<open>
  The many-to-any join (lines 173 to 191): the scope is required; the join condition
  compares the keys and the discriminator column with the scope.
\<close>

definition join_m2a ::
  "schema_overview \<Rightarrow> relation \<Rightarrow> string \<Rightarrow> string \<Rightarrow> string option \<Rightarrow> join_state
     \<Rightarrow> error + join_state" where
  "join_m2a schema rel alias parent pathScope st =
     (if no_scope pathScope then Inl (InvalidQuery ScopeRequired)
      else
        (case primary_of schema pathScope of
           Inl e \<Rightarrow> Inl e
         | Inr pk \<Rightarrow>
             (case meta rel of
                None \<Rightarrow> Inl TypeError
              | Some m \<Rightarrow>
                  Inr (st\<lparr>joins := joins st @
                         [LeftJoinOn alias (case pathScope of None \<Rightarrow> [] | Some s \<Rightarrow> s)
                            (parent @ ''.'' @ field rel) (alias @ ''.'' @ pk)
                            (one_collection_field m)
                            (case pathScope of None \<Rightarrow> [] | Some s \<Rightarrow> s)]\<rparr>))))"

text \<open>The one-to-many join (lines 193 to 200), made in a subquery or below the root.\<close>

definition join_o2m ::
  "schema_overview \<Rightarrow> relation \<Rightarrow> string \<Rightarrow> string \<Rightarrow> join_state \<Rightarrow> error + join_state" where
  "join_o2m schema rel alias parent st =
     (case primary_of schema (related_collection rel) of
        Inl e \<Rightarrow> Inl e
      | Inr pk \<Rightarrow>
          Inr (st\<lparr>joins := joins st @
                 [LeftJoin alias (collection rel) (parent @ ''.'' @ pk)
                    (alias @ ''.'' @ field rel)]\<rparr>))"

text \<open>
  The collection the walk goes on from (lines 203 to 219). The two error branches repeat
  tests that the joins above have made already.
\<close>

definition next_parent :: "relation \<Rightarrow> relation_type option \<Rightarrow> string option \<Rightarrow> error + string" where
  "next_parent rel relationType pathScope =
     (if relationType = Some M2O
      then (case related_collection rel of None \<Rightarrow> Inl TypeError | Some c \<Rightarrow> Inr c)
      else if relationType = Some M2A
      then (case pathScope of
              None \<Rightarrow> Inl (InvalidQuery ScopeRequired)
            | Some s \<Rightarrow> if s = [] then Inl (InvalidQuery ScopeRequired) else Inr s)
      else Inr (collection rel))"

text \<open>
  \<^verbatim>\<open>followRelation\<close> of \<^verbatim>\<open>addJoin\<close> (lines 144 to 227). It returns without a word
  when the segment is no relation; it draws an alias and records it under the remaining
  path before it looks at the relation type.
\<close>

fun addJoin_followRelation ::
  "schema_overview \<Rightarrow> bool \<Rightarrow> (nat \<Rightarrow> string) \<Rightarrow> string list \<Rightarrow> string \<Rightarrow> string option
     \<Rightarrow> join_state \<Rightarrow> error + join_state" where
  "addJoin_followRelation schema subQuery generateAlias [] parentCollection parentAlias st =
     Inl TypeError"
| "addJoin_followRelation schema subQuery generateAlias (part # rest) parentCollection parentAlias st =
     (let pathRoot = pathRoot_of part in
      case find_relation schema parentCollection pathRoot of
        None \<Rightarrow> Inr st
      | Some rel \<Rightarrow>
          let relationType = getRelationType rel parentCollection pathRoot;
              alias = generateAlias (drawn st);
              st1 = st\<lparr>aliasMap := lodash_set (aliasMap st) (join_key parentAlias (part # rest)) alias,
                       drawn := Suc (drawn st)\<rparr>;
              parent = alias_or parentAlias parentCollection
          in
          (case (if relationType = Some M2O then join_m2o schema rel alias parent st1
                 else Inr st1) of
             Inl e \<Rightarrow> Inl e
           | Inr st2 \<Rightarrow>
          (case (if relationType = Some M2A
                 then join_m2a schema rel alias parent (pathScope_of part) st2
                 else Inr st2) of
             Inl e \<Rightarrow> Inl e
           | Inr st3 \<Rightarrow>
          (case (if relationType = Some O2M \<and> (subQuery \<or> parentAlias \<noteq> None)
                 then join_o2m schema rel alias parent st3
                 else Inr st3) of
             Inl e \<Rightarrow> Inl e
           | Inr st4 \<Rightarrow>
               if relationType = Some M2O \<or> subQuery
               then (case next_parent rel relationType (pathScope_of part) of
                       Inl e \<Rightarrow> Inl e
                     | Inr parent' \<Rightarrow>
                         if rest \<noteq> []
                         then addJoin_followRelation schema subQuery generateAlias rest parent'
                                (Some alias) st4
                         else Inr st4)
               else Inr st4))))"

text \<open>\<^verbatim>\<open>addJoin\<close>: the walk starts at the collection, without a parent alias.\<close>

definition addJoin ::
  "schema_overview \<Rightarrow> bool \<Rightarrow> (nat \<Rightarrow> string) \<Rightarrow> string list \<Rightarrow> string \<Rightarrow> join_state
     \<Rightarrow> error + join_state" where
  "addJoin schema subQuery generateAlias path coll st =
     addJoin_followRelation schema subQuery generateAlias path coll None st"

text \<open>
  The test both loops make on a group (lines 122 and 242):
  \<^verbatim>\<open>key === '_or' && value.some(...)\<close>. \<^verbatim>\<open>value.some\<close> is a TypeError when the
  value of \<^verbatim>\<open>_or\<close> is not an array.
\<close>

definition or_short_circuit :: "string \<Rightarrow> json \<Rightarrow> error + bool" where
  "or_short_circuit key v =
     (if key = ''_or''
      then (case v of JArr subFilters \<Rightarrow> some_empty subFilters | _ \<Rightarrow> Inl TypeError)
      else Inr False)"

text \<open>
  \<^verbatim>\<open>addJoins\<close> (lines 117 to 137): the loop over the entries of a filter, the
  \<^verbatim>\<open>_or\<close> short-circuit, the recursion into the sub-filters of a group, and
  \<^verbatim>\<open>addJoin\<close> for a leaf whose path has more than one segment. All joins go to the
  root builder, at once.
\<close>

function addJoins ::
  "schema_overview \<Rightarrow> bool \<Rightarrow> (nat \<Rightarrow> string) \<Rightarrow> json \<Rightarrow> string \<Rightarrow> join_state
     \<Rightarrow> error + join_state"
and addJoins_entries ::
  "schema_overview \<Rightarrow> bool \<Rightarrow> (nat \<Rightarrow> string) \<Rightarrow> (string \<times> json) list \<Rightarrow> string \<Rightarrow> join_state
     \<Rightarrow> error + join_state"
and addJoins_entry ::
  "schema_overview \<Rightarrow> bool \<Rightarrow> (nat \<Rightarrow> string) \<Rightarrow> string \<Rightarrow> json \<Rightarrow> string \<Rightarrow> join_state
     \<Rightarrow> error + join_state"
and addJoins_forEach ::
  "schema_overview \<Rightarrow> bool \<Rightarrow> (nat \<Rightarrow> string) \<Rightarrow> json list \<Rightarrow> string \<Rightarrow> join_state
     \<Rightarrow> error + join_state" where
  "addJoins schema subQuery generateAlias flt coll st =
     (case flt of
        JObj kvs \<Rightarrow> addJoins_entries schema subQuery generateAlias kvs coll st
      | _ \<Rightarrow> (case object_entries flt of Inl e \<Rightarrow> Inl e | Inr _ \<Rightarrow> Inr st))"
| "addJoins_entries schema subQuery generateAlias [] coll st = Inr st"
| "addJoins_entries schema subQuery generateAlias ((key, v) # rest) coll st =
     (case addJoins_entry schema subQuery generateAlias key v coll st of
        Inl e \<Rightarrow> Inl e
      | Inr st' \<Rightarrow> addJoins_entries schema subQuery generateAlias rest coll st')"
| "addJoins_entry schema subQuery generateAlias key v coll st =
     (if key = ''_or'' \<or> key = ''_and''
      then (case or_short_circuit key v of
              Inl e \<Rightarrow> Inl e
            | Inr True \<Rightarrow> Inr st
            | Inr False \<Rightarrow>
                (case v of
                   JArr subFilters \<Rightarrow>
                     addJoins_forEach schema subQuery generateAlias subFilters coll st
                 | _ \<Rightarrow> Inl TypeError))
      else (case getFilterPath key v of
              Inl e \<Rightarrow> Inl e
            | Inr filterPath \<Rightarrow>
                if length filterPath > 1
                then addJoin schema subQuery generateAlias filterPath coll st
                else Inr st))"
| "addJoins_forEach schema subQuery generateAlias [] coll st = Inr st"
| "addJoins_forEach schema subQuery generateAlias (subFilter # rest) coll st =
     (case addJoins schema subQuery generateAlias subFilter coll st of
        Inl e \<Rightarrow> Inl e
      | Inr st' \<Rightarrow> addJoins_forEach schema subQuery generateAlias rest coll st')"
  by pat_completeness auto
termination
  by (relation "measure (\<lambda>x. case x of
          Inl (Inl (schema, subQuery, generateAlias, flt, coll, st)) \<Rightarrow> size flt
        | Inl (Inr (schema, subQuery, generateAlias, kvs, coll, st)) \<Rightarrow>
            size_list (size_prod (\<lambda>_. 0) size) kvs
        | Inr (Inl (schema, subQuery, generateAlias, key, v, coll, st)) \<Rightarrow> size v
        | Inr (Inr (schema, subQuery, generateAlias, xs, coll, st)) \<Rightarrow> size_list size xs)")
    auto

subsection \<open>The predicate compiler: \<^verbatim>\<open>getWhereColumn\<close>\<close>

text \<open>
  \<^verbatim>\<open>parentAlias ? [parentAlias, ...pathParts] : pathParts\<close> for what \<^verbatim>\<open>get\<close>
  returned.
\<close>

definition where_key :: "alias_value option \<Rightarrow> string list \<Rightarrow> string list" where
  "where_key parentAlias pathParts =
     (if alias_truthy parentAlias then alias_string parentAlias # pathParts else pathParts)"

text \<open>
  The collection the walk goes on from (lines 475 to 491). With the classification above
  a many-to-one relation has a related collection, so the \<open>None\<close> branch is not reached.
\<close>

definition where_parent :: "relation \<Rightarrow> relation_type option \<Rightarrow> string option \<Rightarrow> error + string" where
  "where_parent rel relationType pathScope =
     (if relationType = Some M2A
      then (if no_scope pathScope then Inl (InvalidQuery ScopeRequired)
            else Inr (case pathScope of None \<Rightarrow> [] | Some s \<Rightarrow> s))
      else if relationType = Some M2O
      then (case related_collection rel of None \<Rightarrow> Inl TypeError | Some c \<Rightarrow> Inr c)
      else Inr (collection rel))"

text \<open>
  \<^verbatim>\<open>followRelation\<close> of \<^verbatim>\<open>getWhereColumn\<close> (lines 448 to 500): it throws where the
  segment is no relation, reads the alias the join planner recorded for the remaining
  path, and answers \<^verbatim>\<open>`${alias || parent}.${field}`\<close> when one segment is left.
\<close>

fun getWhereColumn_followRelation ::
  "schema_overview \<Rightarrow> alias_map \<Rightarrow> string list \<Rightarrow> string \<Rightarrow> alias_value option
     \<Rightarrow> error + string option" where
  "getWhereColumn_followRelation schema am [] parentCollection parentAlias = Inl TypeError"
| "getWhereColumn_followRelation schema am (part # remainingParts) parentCollection parentAlias =
     (let pathRoot = pathRoot_of part in
      case find_relation schema parentCollection pathRoot of
        None \<Rightarrow> Inl (InvalidQuery (NotRelationalField parentCollection pathRoot))
      | Some rel \<Rightarrow>
          (let relationType = getRelationType rel parentCollection pathRoot;
               alias = lodash_get am (where_key parentAlias (part # remainingParts))
           in case where_parent rel relationType (pathScope_of part) of
                Inl e \<Rightarrow> Inl e
              | Inr parent \<Rightarrow>
                  (case remainingParts of
                     [] \<Rightarrow> Inr None
                   | [last_part] \<Rightarrow>
                       Inr (Some ((if alias_truthy alias then alias_string alias else parent)
                                  @ ''.'' @ last_part))
                   | _ \<Rightarrow>
                       getWhereColumn_followRelation schema am remainingParts parent alias)))"

definition getWhereColumn ::
  "schema_overview \<Rightarrow> alias_map \<Rightarrow> string list \<Rightarrow> string \<Rightarrow> error + string option" where
  "getWhereColumn schema am path coll = getWhereColumn_followRelation schema am path coll None"

subsection \<open>The orchestrator, the filter and the predicate compiler\<close>

text \<open>
  The query description. A field that is absent is \<open>None\<close>; an absent filter is
  \<open>JUndefined\<close>. A sort entry is a column name and a direction; an aggregate entry is an
  operation and its fields.
\<close>

record query =
  sort_q :: "(string \<times> string) list option"
  limit :: "js_number option"
  offset :: "js_number option"
  page :: "js_number option"
  filter_q :: json
  search :: "string option"
  group_q :: "string list option"
  aggregate :: "(string \<times> string list option) list option"

text \<open>
  \<^verbatim>\<open>applySearch\<close> is an \<^verbatim>\<open>async\<close> function called without \<^verbatim>\<open>await\<close>: when the
  collection is missing from the schema its TypeError rejects a promise nobody reads and
  nothing reaches the builder. The group it adds is kept as one call.
\<close>

definition applySearch :: "schema_overview \<Rightarrow> string \<Rightarrow> string \<Rightarrow> call list" where
  "applySearch schema searchQuery coll =
     (case map_of (collections schema) coll of
        None \<Rightarrow> []
      | Some ov \<Rightarrow> [AndWhereSearch coll searchQuery])"

text \<open>\<^verbatim>\<open>applyAggregate\<close>: the calls for one operation and one field, then the two loops.\<close>

definition aggregate_field :: "string \<Rightarrow> string \<Rightarrow> call list" where
  "aggregate_field operation fld =
     (if operation = ''avg'' then [Aggregate ''avg'' fld (''avg->'' @ fld)] else []) @
     (if operation = ''avgDistinct''
      then [Aggregate ''avgDistinct'' fld (''avgDistinct->'' @ fld)] else []) @
     (if operation = ''count''
      then (if fld = ''*'' then [Aggregate ''count'' ''*'' ''count'']
            else [Aggregate ''count'' fld (''count->'' @ fld)])
      else []) @
     (if operation = ''countDistinct''
      then [Aggregate ''countDistinct'' fld (''countDistinct->'' @ fld)] else []) @
     (if operation = ''sum'' then [Aggregate ''sum'' fld (''sum->'' @ fld)] else []) @
     (if operation = ''sumDistinct''
      then [Aggregate ''sumDistinct'' fld (''sumDistinct->'' @ fld)] else []) @
     (if operation = ''min'' then [Aggregate ''min'' fld (''min->'' @ fld)] else []) @
     (if operation = ''max'' then [Aggregate ''max'' fld (''max->'' @ fld)] else [])"

definition applyAggregate :: "(string \<times> string list option) list \<Rightarrow> call list" where
  "applyAggregate agg =
     concat (map (\<lambda>(operation, flds).
                    case flds of
                      None \<Rightarrow> []
                    | Some fs \<Rightarrow> concat (map (aggregate_field operation) fs))
                 agg)"

text \<open>
  The calls of \<^verbatim>\<open>applyQuery\<close> before the filter (lines 25 to 44):
  \<^verbatim>\<open>typeof query.limit === 'number'\<close> holds for every number, \<^verbatim>\<open>query.offset\<close> and
  \<^verbatim>\<open>query.page && query.limit\<close> are tests for truth, and the offset of the page is the
  double \<^verbatim>\<open>query.limit * (query.page - 1)\<close>.
\<close>

definition before_filter :: "string \<Rightarrow> query \<Rightarrow> call list" where
  "before_filter coll q =
     (case sort_q q of
        None \<Rightarrow> []
      | Some s \<Rightarrow> [OrderBy (map (\<lambda>(c, ord). (GetColumn (Some coll) (Some c), ord)) s)]) @
     (case limit q of None \<Rightarrow> [] | Some l \<Rightarrow> [Limit l]) @
     (case offset q of
        None \<Rightarrow> []
      | Some off \<Rightarrow> if number_truthy off then [Offset (Value off)] else []) @
     (case page q of
        None \<Rightarrow> []
      | Some p \<Rightarrow>
          (case limit q of
             None \<Rightarrow> []
           | Some l \<Rightarrow>
               if number_truthy p \<and> number_truthy l
               then [Offset (Mul (Value l) (Sub (Value p) (Value (Integer 1))))]
               else []))"

text \<open>The calls of \<^verbatim>\<open>applyQuery\<close> after the filter (lines 50 to 60).\<close>

definition after_filter :: "schema_overview \<Rightarrow> string \<Rightarrow> query \<Rightarrow> call list" where
  "after_filter schema coll q =
     (case search q of
        None \<Rightarrow> []
      | Some s \<Rightarrow> if s = [] then [] else applySearch schema s coll) @
     (case group_q q of None \<Rightarrow> [] | Some g \<Rightarrow> [GroupBy g]) @
     (case aggregate q of None \<Rightarrow> [] | Some agg \<Rightarrow> applyAggregate agg)"

text \<open>The query \<^verbatim>\<open>{ filter: value }\<close> of the subselect.\<close>

definition filter_only :: "json \<Rightarrow> query" where
  "filter_only v =
     \<lparr>sort_q = None, limit = None, offset = None, page = None, filter_q = v,
      search = None, group_q = None, aggregate = None\<rparr>"

text \<open>
  What a deferred callback leaves in its call: the calls it made, or its exception; and
  the number of aliases drawn once the builder has run it.
\<close>

definition deferred :: "(call list \<Rightarrow> call list) \<Rightarrow> error + nat \<times> call list \<Rightarrow> error + call list" where
  "deferred body r = (case r of Inl e \<Rightarrow> Inl e | Inr (n, calls) \<Rightarrow> Inr (body calls))"

definition drawn_after :: "nat \<Rightarrow> error + nat \<times> call list \<Rightarrow> nat" where
  "drawn_after n r = (case r of Inl e \<Rightarrow> n | Inr (n', calls) \<Rightarrow> n')"

text \<open>An exception of \<^verbatim>\<open>applyFilterToQuery\<close> leaves the loop; its calls are added.\<close>

definition leaf_result :: "nat \<Rightarrow> error + call list \<Rightarrow> error + nat \<times> call list" where
  "leaf_result n r = (case r of Inl e \<Rightarrow> Inl e | Inr calls \<Rightarrow> Inr (n, calls))"

text \<open>
  The relation type of the first segment of a leaf (lines 263 to 272): \<^verbatim>\<open>null\<close>
  (here \<open>None\<close>) when no relation matches.
\<close>

definition relationType_of :: "schema_overview \<Rightarrow> string \<Rightarrow> string \<Rightarrow> relation_type option" where
  "relationType_of schema coll pathRoot =
     (case find_relation schema coll pathRoot of
        None \<Rightarrow> None
      | Some rel \<Rightarrow> getRelationType rel coll pathRoot)"

text \<open>
  The branch of a leaf that is no one-to-many relation (lines 275 to 281): the column
  comes from \<^verbatim>\<open>getWhereColumn\<close> when the path has more than one segment, and is
  \<^verbatim>\<open>`${collection}.${filterPath[0]}`\<close> otherwise.
\<close>

definition column_predicate ::
  "schema_overview \<Rightarrow> alias_map \<Rightarrow> string list \<Rightarrow> string \<Rightarrow> string \<Rightarrow> string \<Rightarrow> json
     \<Rightarrow> logical \<Rightarrow> nat \<Rightarrow> error + nat \<times> call list" where
  "column_predicate schema am filterPath part coll filterOperator filterValue lg n =
     (if length filterPath > 1
      then (case getWhereColumn schema am filterPath coll of
              Inl e \<Rightarrow> Inl e
            | Inr None \<Rightarrow> Inr (n, [])
            | Inr (Some columnName) \<Rightarrow>
                if columnName = [] then Inr (n, [])
                else leaf_result n (applyFilterToQuery columnName filterOperator filterValue lg))
      else leaf_result n (applyFilterToQuery (coll @ ''.'' @ part) filterOperator filterValue lg))"

text \<open>
  The head of the subselect (lines 286 to 289):
  \<^verbatim>\<open>subQueryKnex.select({ [field]: column }).from(collection)\<close>, before the calls
  \<^verbatim>\<open>applyQuery\<close> makes on the same builder.
\<close>

definition subselect :: "relation \<Rightarrow> call list \<Rightarrow> call list" where
  "subselect rel calls =
     [Select (field rel) (collection rel @ ''.'' @ field rel), From (collection rel)] @ calls"

text \<open>
  \<^verbatim>\<open>applyQuery\<close> (lines 17 to 61), \<^verbatim>\<open>applyFilter\<close> (lines 102 to 115) and
  \<^verbatim>\<open>addWhereClauses\<close> (lines 231 to 303). Each takes the number of aliases drawn so far
  and returns it with the calls made on its builder. The joins of \<^verbatim>\<open>applyFilter\<close> come
  first, then the predicates; the alias map is local to one \<^verbatim>\<open>applyFilter\<close>.
\<close>

function applyQuery ::
  "schema_overview \<Rightarrow> (nat \<Rightarrow> string) \<Rightarrow> string \<Rightarrow> query \<Rightarrow> bool \<Rightarrow> nat
     \<Rightarrow> error + nat \<times> call list"
and applyFilter ::
  "schema_overview \<Rightarrow> (nat \<Rightarrow> string) \<Rightarrow> json \<Rightarrow> string \<Rightarrow> bool \<Rightarrow> nat
     \<Rightarrow> error + nat \<times> call list"
and addWhereClauses ::
  "schema_overview \<Rightarrow> (nat \<Rightarrow> string) \<Rightarrow> bool \<Rightarrow> alias_map \<Rightarrow> json \<Rightarrow> string \<Rightarrow> logical \<Rightarrow> nat
     \<Rightarrow> error + nat \<times> call list"
and addWhereClauses_entries ::
  "schema_overview \<Rightarrow> (nat \<Rightarrow> string) \<Rightarrow> bool \<Rightarrow> alias_map \<Rightarrow> (string \<times> json) list \<Rightarrow> string
     \<Rightarrow> logical \<Rightarrow> nat \<Rightarrow> error + nat \<times> call list"
and addWhereClauses_entry ::
  "schema_overview \<Rightarrow> (nat \<Rightarrow> string) \<Rightarrow> bool \<Rightarrow> alias_map \<Rightarrow> string \<Rightarrow> json \<Rightarrow> string
     \<Rightarrow> logical \<Rightarrow> nat \<Rightarrow> error + nat \<times> call list"
and addWhereClauses_forEach ::
  "schema_overview \<Rightarrow> (nat \<Rightarrow> string) \<Rightarrow> bool \<Rightarrow> alias_map \<Rightarrow> json list \<Rightarrow> string
     \<Rightarrow> logical \<Rightarrow> nat \<Rightarrow> error + nat \<times> call list" where
  "applyQuery schema generateAlias coll q subQuery n =
     (if truthy (filter_q q)
      then (case applyFilter schema generateAlias (filter_q q) coll subQuery n of
              Inl e \<Rightarrow> Inl e
            | Inr (n', calls) \<Rightarrow>
                Inr (n', before_filter coll q @ calls @ after_filter schema coll q))
      else Inr (n, before_filter coll q @ after_filter schema coll q))"
| "applyFilter schema generateAlias rootFilter coll subQuery n =
     (case addJoins schema subQuery generateAlias rootFilter coll
             \<lparr>aliasMap = [], joins = [], drawn = n\<rparr> of
        Inl e \<Rightarrow> Inl e
      | Inr st \<Rightarrow>
          (case addWhereClauses schema generateAlias subQuery (aliasMap st) rootFilter coll And
                  (drawn st) of
             Inl e \<Rightarrow> Inl e
           | Inr (n', calls) \<Rightarrow> Inr (n', joins st @ calls)))"
| "addWhereClauses schema generateAlias subQuery am flt coll lg n =
     (case flt of
        JObj kvs \<Rightarrow> addWhereClauses_entries schema generateAlias subQuery am kvs coll lg n
      | _ \<Rightarrow> (case object_entries flt of Inl e \<Rightarrow> Inl e | Inr _ \<Rightarrow> Inr (n, [])))"
| "addWhereClauses_entries schema generateAlias subQuery am [] coll lg n = Inr (n, [])"
| "addWhereClauses_entries schema generateAlias subQuery am ((key, v) # rest) coll lg n =
     (case addWhereClauses_entry schema generateAlias subQuery am key v coll lg n of
        Inl e \<Rightarrow> Inl e
      | Inr (n1, calls1) \<Rightarrow>
          (case addWhereClauses_entries schema generateAlias subQuery am rest coll lg n1 of
             Inl e \<Rightarrow> Inl e
           | Inr (n2, calls2) \<Rightarrow> Inr (n2, calls1 @ calls2)))"
| "addWhereClauses_entry schema generateAlias subQuery am key v coll lg n =
     (if key = ''_or'' \<or> key = ''_and''
      then (case or_short_circuit key v of
              Inl e \<Rightarrow> Inl e
            | Inr True \<Rightarrow> Inr (n, [])
            | Inr False \<Rightarrow>
                (let r = (case v of
                            JArr subFilters \<Rightarrow>
                              addWhereClauses_forEach schema generateAlias subQuery am subFilters
                                coll (if key = ''_and'' then And else Or) n
                          | _ \<Rightarrow> Inl TypeError)
                 in Inr (drawn_after n r, [WhereWrapped lg (deferred (\<lambda>calls. calls) r)])))
      else
        (case getFilterPath key v of
           Inl e \<Rightarrow> Inl e
         | Inr filterPath \<Rightarrow>
        (case filterPath of
           [] \<Rightarrow> Inl TypeError
         | part # _ \<Rightarrow>
        (case getOperation key v of
           Inl e \<Rightarrow> Inl e
         | Inr (filterOperator, filterValue) \<Rightarrow>
        (let relationType = relationType_of schema coll (pathRoot_of part)
         in if relationType = Some M2O \<or> relationType = Some M2A \<or> relationType = None
            then column_predicate schema am filterPath part coll filterOperator filterValue lg n
            else if \<not> subQuery
            then (case find_relation schema coll (pathRoot_of part) of
                    None \<Rightarrow> Inl TypeError
                  | Some rel \<Rightarrow>
                      (case primary_of schema (related_collection rel) of
                         Inl e \<Rightarrow> Inl e
                       | Inr pk \<Rightarrow>
                           (let r = applyQuery schema generateAlias (collection rel)
                                      (filter_only v) True n
                            in Inr (drawn_after n r,
                                 [WhereInSubquery lg (coll @ ''.'' @ pk)
                                    (deferred (subselect rel) r)]))))
            else Inr (n, []))))))"
| "addWhereClauses_forEach schema generateAlias subQuery am [] coll lg n = Inr (n, [])"
| "addWhereClauses_forEach schema generateAlias subQuery am (subFilter # rest) coll lg n =
     (case addWhereClauses schema generateAlias subQuery am subFilter coll lg n of
        Inl e \<Rightarrow> Inl e
      | Inr (n1, calls1) \<Rightarrow>
          (case addWhereClauses_forEach schema generateAlias subQuery am rest coll lg n1 of
             Inl e \<Rightarrow> Inl e
           | Inr (n2, calls2) \<Rightarrow> Inr (n2, calls1 @ calls2)))"
  by pat_completeness auto
termination
  by (relation "measure (\<lambda>x. case x of
          Inl (Inl (schema, generateAlias, coll, q, subQuery, n)) \<Rightarrow> 4 * size (filter_q q) + 2
        | Inl (Inr (Inl (schema, generateAlias, flt, coll, subQuery, n))) \<Rightarrow> 4 * size flt + 1
        | Inl (Inr (Inr (schema, generateAlias, subQuery, am, flt, coll, lg, n))) \<Rightarrow> 4 * size flt
        | Inr (Inl (schema, generateAlias, subQuery, am, kvs, coll, lg, n)) \<Rightarrow>
            4 * size_list (size_prod (\<lambda>_. 0) size) kvs
        | Inr (Inr (Inl (schema, generateAlias, subQuery, am, key, v, coll, lg, n))) \<Rightarrow>
            4 * size v + 3
        | Inr (Inr (Inr (schema, generateAlias, subQuery, am, xs, coll, lg, n))) \<Rightarrow>
            4 * size_list size xs)")
    (auto simp: filter_only_def)

declare addJoin_followRelation.simps [simp del]
declare getWhereColumn_followRelation.simps [simp del]
declare addJoins_entry.simps [simp del]
declare addWhereClauses_entry.simps [simp del]
declare applyQuery.simps [simp del]
declare applyFilter.simps [simp del]
declare getOperation.simps [simp del]

subsection \<open>A schema to run the compiler on\<close>

text \<open>
  Pages have articles (\<^verbatim>\<open>articles.page_id\<close>, reverse accessor \<^verbatim>\<open>articles\<close>),
  articles have an author (\<^verbatim>\<open>articles.author\<close>), authors have a country
  (\<^verbatim>\<open>authors.country\<close>), a page shows one item of any collection
  (\<^verbatim>\<open>pages.item\<close>, discriminated by \<^verbatim>\<open>pages.item_collection\<close>), and so does an
  article (\<^verbatim>\<open>articles.block\<close>, discriminated by \<^verbatim>\<open>articles.block_collection\<close>).
\<close>

definition demo_schema :: schema_overview where
  "demo_schema =
     \<lparr>collections =
        [(''pages'', \<lparr>primary = ''id'', fields_map = [(''id'', ''integer''), (''title'', ''string'')]\<rparr>),
         (''articles'', \<lparr>primary = ''id'', fields_map = [(''id'', ''integer''), (''title'', ''string'')]\<rparr>),
         (''authors'', \<lparr>primary = ''id'', fields_map = [(''id'', ''integer''), (''name'', ''string'')]\<rparr>),
         (''countries'', \<lparr>primary = ''code'', fields_map = [(''code'', ''string'')]\<rparr>)],
      relations =
        [\<lparr>collection = ''articles'', field = ''page_id'', related_collection = Some ''pages'',
          meta = Some \<lparr>one_field = Some ''articles'', one_collection_field = None\<rparr>\<rparr>,
         \<lparr>collection = ''articles'', field = ''author'', related_collection = Some ''authors'',
          meta = Some \<lparr>one_field = None, one_collection_field = None\<rparr>\<rparr>,
         \<lparr>collection = ''authors'', field = ''country'', related_collection = Some ''countries'',
          meta = None\<rparr>,
         \<lparr>collection = ''pages'', field = ''item'', related_collection = None,
          meta = Some \<lparr>one_field = None, one_collection_field = Some ''item_collection''\<rparr>\<rparr>,
         \<lparr>collection = ''articles'', field = ''block'', related_collection = None,
          meta = Some \<lparr>one_field = None, one_collection_field = Some ''block_collection''\<rparr>\<rparr>]\<rparr>"

text \<open>Four draws of \<^verbatim>\<open>generateAlias\<close>.\<close>

definition demo_alias :: "nat \<Rightarrow> string" where
  "demo_alias n =
     (if n = 0 then ''aaaaa'' else if n = 1 then ''bbbbb'' else if n = 2 then ''ccccc''
      else ''ddddd'')"

subsection \<open>Reading the builder\<close>

text \<open>
  The builder keeps a single offset: an \<^verbatim>\<open>offset\<close> call replaces the one before. The
  offset in force after a sequence of calls is that of the last \<^verbatim>\<open>offset\<close> call.
\<close>

fun effective_offset :: "call list \<Rightarrow> js_expr option" where
  "effective_offset [] = None"
| "effective_offset (c # calls) =
     (case effective_offset calls of
        Some off \<Rightarrow> Some off
      | None \<Rightarrow> (case c of Offset off \<Rightarrow> Some off | _ \<Rightarrow> None))"

text \<open>
  Double arithmetic is exact on the safe integers (\<^verbatim>\<open>Number.isSafeInteger\<close>: at most
  \<open>2^53 - 1\<close> in absolute value) as long as the result is a safe integer too.
  \<open>exact_value\<close> is the integer a numeric argument evaluates to in that case, and
  \<open>None\<close> where a non-integer, an infinity, \<^verbatim>\<open>NaN\<close> or rounding may come in.
\<close>

definition safe_integer :: "int \<Rightarrow> bool" where
  "safe_integer n \<longleftrightarrow> - (2 ^ 53 - 1) \<le> n \<and> n \<le> 2 ^ 53 - 1"

fun exact_value :: "js_expr \<Rightarrow> int option" where
  "exact_value (Value (Integer n)) = (if safe_integer n then Some n else None)"
| "exact_value (Value x) = None"
| "exact_value (Mul a b) =
     (case exact_value a of
        None \<Rightarrow> None
      | Some x \<Rightarrow>
          (case exact_value b of
             None \<Rightarrow> None
           | Some y \<Rightarrow> if safe_integer (x * y) then Some (x * y) else None))"
| "exact_value (Sub a b) =
     (case exact_value a of
        None \<Rightarrow> None
      | Some x \<Rightarrow>
          (case exact_value b of
             None \<Rightarrow> None
           | Some y \<Rightarrow> if safe_integer (x - y) then Some (x - y) else None))"

text \<open>The calls that join a table.\<close>

fun is_join :: "call \<Rightarrow> bool" where
  "is_join (LeftJoin alias table first second) = True"
| "is_join (LeftJoinOn alias table first second col val) = True"
| "is_join c = False"

text \<open>The calls that set the offset.\<close>

fun is_offset :: "call \<Rightarrow> bool" where
  "is_offset (Offset off) = True"
| "is_offset c = False"

text \<open>
  One state of the join planner comes after another: joins were added to the builder, and
  nothing but joins.
\<close>

definition grows :: "join_state \<Rightarrow> join_state \<Rightarrow> bool" where
  "grows st st' \<longleftrightarrow> (\<exists>js. joins st' = joins st @ js \<and> (\<forall>c\<in>set js. is_join c))"

text \<open>The calls of the predicate compiler: neither joins nor offsets.\<close>

definition builds_predicates :: "call list \<Rightarrow> bool" where
  "builds_predicates cs \<longleftrightarrow> (\<forall>c\<in>set cs. \<not> is_offset c \<and> \<not> is_join c)"

subsection \<open>Resolving a path\<close>

text \<open>
  The collection a sequence of relation segments leads to, starting from a collection:
  each segment must be a relation of the collection reached so far, and a many-to-any
  segment must carry its scope. \<open>None\<close> when the sequence does not resolve.
\<close>

fun resolve_path :: "schema_overview \<Rightarrow> string \<Rightarrow> string list \<Rightarrow> string option" where
  "resolve_path schema parentCollection [] = Some parentCollection"
| "resolve_path schema parentCollection (part # rest) =
     (case find_relation schema parentCollection (pathRoot_of part) of
        None \<Rightarrow> None
      | Some rel \<Rightarrow>
          (case where_parent rel (getRelationType rel parentCollection (pathRoot_of part))
                  (pathScope_of part) of
             Inl e \<Rightarrow> None
           | Inr target \<Rightarrow> resolve_path schema target rest))"

subsection \<open>Chains of many-to-one hops\<close>

text \<open>
  A path made of many-to-one hops and a final column: every segment but the last is a
  many-to-one relation of the collection reached so far, whose related collection is in
  the schema, and the last segment is no relation of the last collection.
\<close>

fun m2o_chain :: "schema_overview \<Rightarrow> string \<Rightarrow> string list \<Rightarrow> bool" where
  "m2o_chain schema parentCollection [] = False"
| "m2o_chain schema parentCollection [col] =
     (find_relation schema parentCollection (pathRoot_of col) = None)"
| "m2o_chain schema parentCollection (part # rest) =
     (case find_relation schema parentCollection (pathRoot_of part) of
        None \<Rightarrow> False
      | Some rel \<Rightarrow>
          getRelationType rel parentCollection (pathRoot_of part) = Some M2O \<and>
          (case related_collection rel of
             None \<Rightarrow> False
           | Some target \<Rightarrow>
               map_of (collections schema) target \<noteq> None \<and> m2o_chain schema target rest))"

text \<open>
  The joins the spec asks for along such a path, written from its words: for each hop
  \<open>LEFT JOIN related_collection AS alias ON parent.field = alias.primary_key\<close>, the
  parent being the collection at the first hop and the alias of the hop before
  afterwards, and the alias of the \<open>i\<close>-th hop being the \<open>i\<close>-th draw.
\<close>

fun expected_joins ::
  "schema_overview \<Rightarrow> (nat \<Rightarrow> string) \<Rightarrow> string \<Rightarrow> string \<Rightarrow> string list \<Rightarrow> nat \<Rightarrow> call list" where
  "expected_joins schema generateAlias parentName parentCollection [] k = []"
| "expected_joins schema generateAlias parentName parentCollection [col] k = []"
| "expected_joins schema generateAlias parentName parentCollection (part # rest) k =
     (case find_relation schema parentCollection (pathRoot_of part) of
        None \<Rightarrow> []
      | Some rel \<Rightarrow>
          (case related_collection rel of
             None \<Rightarrow> []
           | Some target \<Rightarrow>
               (case map_of (collections schema) target of
                  None \<Rightarrow> []
                | Some ov \<Rightarrow>
                    LeftJoin (generateAlias k) target (parentName @ ''.'' @ field rel)
                      (generateAlias k @ ''.'' @ primary ov) #
                    expected_joins schema generateAlias (generateAlias k) target rest (Suc k))))"

text \<open>
  The alias map holds the draws of a walk along a path: under the key of each hop (the
  parent alias, if any, and the remaining path) it has the alias drawn at that hop.
\<close>

fun recorded :: "(nat \<Rightarrow> string) \<Rightarrow> alias_map \<Rightarrow> string option \<Rightarrow> string list \<Rightarrow> nat \<Rightarrow> bool" where
  "recorded generateAlias am parentAlias [] k = True"
| "recorded generateAlias am parentAlias [col] k = True"
| "recorded generateAlias am parentAlias (part # rest) k =
     (lodash_get am (join_key parentAlias (part # rest)) = Some (Alias (generateAlias k)) \<and>
      recorded generateAlias am (Some (generateAlias k)) rest (Suc k))"

section \<open>Properties\<close>

subsection \<open>Null and emptiness tests with the comparand \<^verbatim>\<open>false\<close>\<close>

lemmas leaf_defs =
  applyFilterToQuery_def valueless_calls_def comparison_calls_def geometry_calls_def
  without_undefined_def between_calls_def comma_split_def

lemmas demo_defs =
  demo_schema_def demo_alias_def find_relation_def relation_matches_def meta_one_field_def
  getRelationType_def relationType_of_def pathRoot_of_def pathScope_of_def

lemmas run_defs =
  applyQuery.simps applyFilter.simps addJoins_entry.simps addWhereClauses_entry.simps
  addJoin_def addJoin_followRelation.simps getWhereColumn_def getWhereColumn_followRelation.simps
  getOperation.simps or_short_circuit_def column_predicate_def leaf_result_def
  deferred_def drawn_after_def subselect_def filter_only_def before_filter_def after_filter_def
  join_m2o_def join_m2a_def join_o2m_def next_parent_def where_parent_def where_key_def
  join_key_def alias_or_def no_scope_def primary_of_def selection_def Let_def

text \<open>
  Claim C6. The claim pairs \<^verbatim>\<open>_null: false\<close> with \<open>column IS NOT NULL\<close> alone and
  \<^verbatim>\<open>_nnull: false\<close> with \<open>column IS NULL\<close> alone, and likewise for \<^verbatim>\<open>_empty\<close> and
  \<^verbatim>\<open>_nempty\<close>. The code tests the operator name alone in one \<^verbatim>\<open>if\<close> and the
  name of the opposite operator with \<^verbatim>\<open>false\<close> in the other, so with the comparand
  \<^verbatim>\<open>false\<close> both tests hold and both predicates are put on the builder: the leaf
  asks for \<open>column IS NULL\<close> and \<open>column IS NOT NULL\<close> at once.
\<close>

theorem false_comparand_emits_both_predicates:
  "applyFilterToQuery key ''_null'' (JBool False) lg =
     Inr [WhereNull lg (selection key), WhereNotNull lg (selection key)] \<and>
   applyFilterToQuery key ''_nnull'' (JBool False) lg =
     Inr [WhereNull lg (selection key), WhereNotNull lg (selection key)] \<and>
   applyFilterToQuery key ''_empty'' (JBool False) lg =
     Inr [AndWhere lg [Where And (Key key) ''='' (Val (JStr []))],
          AndWhere lg [Where And (Key key) ''!='' (Val (JStr []))]] \<and>
   applyFilterToQuery key ''_nempty'' (JBool False) lg =
     Inr [AndWhere lg [Where And (Key key) ''='' (Val (JStr []))],
          AndWhere lg [Where And (Key key) ''!='' (Val (JStr []))]]"
  by (simp add: leaf_defs Let_def)

text \<open>With any other comparand the four operators give the one predicate of the claim.\<close>

lemma null_tests_other_comparands:
  assumes "v \<noteq> JBool False"
  shows "applyFilterToQuery key ''_null'' v lg = Inr [WhereNull lg (selection key)]"
    and "applyFilterToQuery key ''_nnull'' v lg = Inr [WhereNotNull lg (selection key)]"
    and "applyFilterToQuery key ''_empty'' v lg =
           Inr [AndWhere lg [Where And (Key key) ''='' (Val (JStr []))]]"
    and "applyFilterToQuery key ''_nempty'' v lg =
           Inr [AndWhere lg [Where And (Key key) ''!='' (Val (JStr []))]]"
  using assms by (simp_all add: leaf_defs Let_def)

subsection \<open>Comma-delimited comparands\<close>

text \<open>
  For \<^verbatim>\<open>_in\<close> and \<^verbatim>\<open>_nin\<close> a string and the sequence of its comma-separated pieces
  give the same call.
\<close>

lemma in_string_as_sequence:
  "applyFilterToQuery key ''_in'' (JStr s) lg =
     applyFilterToQuery key ''_in'' (JArr (map JStr (split_on CHR '','' s))) lg"
  "applyFilterToQuery key ''_nin'' (JStr s) lg =
     applyFilterToQuery key ''_nin'' (JArr (map JStr (split_on CHR '','' s))) lg"
  by (simp_all add: leaf_defs Let_def filter_id_conv)

text \<open>
  Claim C7. The claim lets \<^verbatim>\<open>_between\<close> and \<^verbatim>\<open>_nbetween\<close> take a comma-delimited
  string in place of the two values. The code tests \<^verbatim>\<open>compareValue.length !== 2\<close>
  before it splits the string, so the length tested is the number of characters: the
  string \<^verbatim>\<open>"1,5"\<close> has three and the leaf is dropped, while the sequence of its two
  pieces gives the range predicate.
\<close>

theorem between_string_is_dropped:
  "applyFilterToQuery key ''_between'' (JStr ''1,5'') lg = Inr [] \<and>
   applyFilterToQuery key ''_between'' (JArr [JStr ''1'', JStr ''5'']) lg =
     Inr [WhereBetween lg (selection key) (JArr [JStr ''1'', JStr ''5''])] \<and>
   applyFilterToQuery key ''_nbetween'' (JStr ''1,5'') lg = Inr [] \<and>
   applyFilterToQuery key ''_nbetween'' (JArr [JStr ''1'', JStr ''5'']) lg =
     Inr [WhereNotBetween lg (selection key) (JArr [JStr ''1'', JStr ''5''])] \<and>
   comma_split (JStr ''1,5'') = JArr [JStr ''1'', JStr ''5'']"
  by (simp add: leaf_defs Let_def)

subsection \<open>What the two walks put on the builder\<close>

lemma getFilterPath_head:
  "getFilterPath key v = Inr path \<Longrightarrow> \<exists>rest. path = key # rest"
  by (cases "(key, v)" rule: getFilterPath.cases) (auto split: if_splits sum.splits)

lemma getOperation_no_InvalidQuery: "getOperation key v \<noteq> Inl (InvalidQuery m)"
  by (induction key v rule: getOperation.induct)
     (subst getOperation.simps, auto split: json.splits list.splits prod.splits)

lemma js_length_error: "js_length v = Inl e \<Longrightarrow> e = TypeError"
  by (cases v) (auto split: option.splits)

lemma applyFilterToQuery_no_InvalidQuery: "applyFilterToQuery k op v lg \<noteq> Inl (InvalidQuery m)"
  by (auto simp: applyFilterToQuery_def between_calls_def Let_def dest!: js_length_error split: sum.splits if_splits option.splits)

lemma join_steps:
  "join_m2o S rel a p st = Inr st' \<Longrightarrow> \<exists>j. is_join j \<and> joins st' = joins st @ [j] \<and> aliasMap st' = aliasMap st \<and> drawn st' = drawn st"
  "join_m2a S rel a p sc st = Inr st' \<Longrightarrow> \<exists>j. is_join j \<and> joins st' = joins st @ [j] \<and> aliasMap st' = aliasMap st \<and> drawn st' = drawn st"
  "join_o2m S rel a p st = Inr st' \<Longrightarrow> \<exists>j. is_join j \<and> joins st' = joins st @ [j] \<and> aliasMap st' = aliasMap st \<and> drawn st' = drawn st"
  by (auto simp: join_m2o_def join_m2a_def join_o2m_def split: sum.splits if_splits option.splits)

lemma grows_refl: "grows st st" by (simp add: grows_def)
lemma grows_trans: "grows a b \<Longrightarrow> grows b c \<Longrightarrow> grows a c" by (auto simp: grows_def)

lemma followRelation_joins:
  "addJoin_followRelation S sub gen path parent pa st = Inr st' \<Longrightarrow> grows st st'"
  unfolding grows_def
proof (induction S sub gen path parent pa st arbitrary: st' rule: addJoin_followRelation.induct)
  case (1 S sub gen parent pa st)
  then show ?case by (simp add: addJoin_followRelation.simps)
next
  case (2 S sub gen part rest parent pa st)
  show ?case
  proof (cases "find_relation S parent (pathRoot_of part)")
    case None
    with 2(2) show ?thesis by (simp add: addJoin_followRelation.simps)
  next
    case (Some rel)
    show ?thesis using 2(2) 2(1)[OF refl Some refl refl refl refl] Some
      by (fastforce simp: addJoin_followRelation.simps Let_def split: sum.splits if_splits dest!: join_steps)
  qed
qed

lemma addJoins_joins:
  "addJoins S sub gen flt coll st = Inr st' \<Longrightarrow> grows st st'"
  "addJoins_entries S sub gen kvs coll st = Inr st' \<Longrightarrow> grows st st'"
  "addJoins_entry S sub gen key v coll st = Inr st' \<Longrightarrow> grows st st'"
  "addJoins_forEach S sub gen xs coll st = Inr st' \<Longrightarrow> grows st st'"
proof (induction S sub gen flt coll st and S sub gen kvs coll st and S sub gen key v coll st and S sub gen xs coll st
       arbitrary: st' and st' and st' and st'
       rule: addJoins_addJoins_entries_addJoins_entry_addJoins_forEach.induct)
  case (1 schema subQuery generateAlias flt coll st)
  then show ?case by (auto simp: grows_refl split: json.splits sum.splits)
next
  case (2 schema subQuery generateAlias coll st)
  then show ?case by (simp add: grows_refl)
next
  case (3 schema subQuery generateAlias key v rest coll st)
  then show ?case by (auto split: sum.splits intro: grows_trans)
next
  case (4 schema subQuery generateAlias key v coll st)
  then show ?case
    by (auto simp: addJoins_entry.simps grows_refl addJoin_def split: sum.splits if_splits json.splits bool.splits dest: followRelation_joins)
next
  case (5 schema subQuery generateAlias coll st)
  then show ?case by (simp add: grows_refl)
next
  case (6 schema subQuery generateAlias subFilter rest coll st)
  then show ?case by (auto split: sum.splits intro: grows_trans)
qed

lemma builds_predicates_simps [simp]:
  "builds_predicates []"
  "builds_predicates (xs @ ys) \<longleftrightarrow> builds_predicates xs \<and> builds_predicates ys"
  "builds_predicates (c # cs) \<longleftrightarrow> \<not> is_offset c \<and> \<not> is_join c \<and> builds_predicates cs"
  by (auto simp: builds_predicates_def)

lemma leaf_parts_build_predicates:
  "builds_predicates (valueless_calls sel k op v lg)"
  "builds_predicates (comparison_calls sel k op v lg)"
  "builds_predicates (geometry_calls k op v lg)"
  by (simp_all add: valueless_calls_def comparison_calls_def geometry_calls_def)

lemma between_calls_build_predicates:
  "between_calls (WhereBetween lg sel) v = Inr (Some cs) \<Longrightarrow> builds_predicates cs"
  "between_calls (WhereNotBetween lg sel) v = Inr (Some cs) \<Longrightarrow> builds_predicates cs"
  by (auto simp: between_calls_def split: sum.splits if_splits)

lemma applyFilterToQuery_calls:
  "applyFilterToQuery k op v lg = Inr cs \<Longrightarrow> builds_predicates cs"
  unfolding applyFilterToQuery_def Let_def
  by (auto simp: leaf_parts_build_predicates split: sum.splits if_splits option.splits
           dest: between_calls_build_predicates)

lemma column_predicate_calls:
  "column_predicate S am path part coll op v lg n = Inr (n', cs) \<Longrightarrow> builds_predicates cs"
  by (auto simp: column_predicate_def leaf_result_def split: sum.splits if_splits option.splits dest: applyFilterToQuery_calls)

lemma where_entry_calls:
  assumes "addWhereClauses_entry S gen sub am key v coll lg n = Inr (n', cs)"
  shows "builds_predicates cs"
proof (cases "key = ''_or'' \<or> key = ''_and''")
  case True
  with assms show ?thesis
    by (subst (asm) addWhereClauses_entry.simps)
       (auto simp: Let_def split: sum.splits bool.splits)
next
  case False
  with assms have "case getFilterPath key v of
           Inl e \<Rightarrow> False
         | Inr filterPath \<Rightarrow>
        (case filterPath of
           [] \<Rightarrow> False
         | part # _ \<Rightarrow>
        (case getOperation key v of
           Inl e \<Rightarrow> False
         | Inr (filterOperator, filterValue) \<Rightarrow>
            column_predicate S am filterPath part coll filterOperator filterValue lg n = Inr (n', cs)
             \<or> (\<exists>x y. cs = [WhereInSubquery lg x y]) \<or> cs = []))"
    by (subst (asm) addWhereClauses_entry.simps)
       (auto simp: Let_def split: sum.splits list.splits option.splits if_splits prod.splits)
  then show ?thesis
    by (auto split: sum.splits list.splits prod.splits dest: column_predicate_calls)
qed

lemma where_entries_calls:
  "addWhereClauses_entries S gen sub am kvs coll lg n = Inr (n', cs) \<Longrightarrow> builds_predicates cs"
proof (induction kvs arbitrary: n n' cs)
  case Nil
  then show ?case by simp
next
  case (Cons kv kvs)
  obtain k v where kv: "kv = (k, v)" by (cases kv)
  from Cons.prems obtain n1 c1 c2 where
    e: "addWhereClauses_entry S gen sub am k v coll lg n = Inr (n1, c1)" and
    r: "addWhereClauses_entries S gen sub am kvs coll lg n1 = Inr (n', c2)" and
    cs: "cs = c1 @ c2"
    unfolding kv by (auto split: sum.splits)
  from where_entry_calls[OF e] Cons.IH[OF r] cs show ?case by simp
qed

lemma addWhereClauses_calls:
  "addWhereClauses S gen sub am flt coll lg n = Inr (n', cs) \<Longrightarrow> builds_predicates cs"
  by (cases flt) (auto split: sum.splits dest: where_entries_calls)

lemma effective_offset_append:
  "effective_offset (xs @ ys) =
     (case effective_offset ys of Some off \<Rightarrow> Some off | None \<Rightarrow> effective_offset xs)"
  by (induction xs) (auto split: option.splits)

lemma effective_offset_none:
  "\<forall>c\<in>set cs. \<not> is_offset c \<Longrightarrow> effective_offset cs = None"
  by (induction cs) (auto split: option.splits call.splits)

lemma is_join_not_offset: "is_join c \<Longrightarrow> \<not> is_offset c"
  by (cases c) auto

lemma aggregate_no_offset: "c \<in> set (applyAggregate agg) \<Longrightarrow> \<not> is_offset c"
  by (auto simp: applyAggregate_def aggregate_field_def split: option.splits if_splits)

lemma after_filter_no_offset: "c \<in> set (after_filter S coll q) \<Longrightarrow> \<not> is_offset c"
  by (auto simp: after_filter_def applySearch_def split: option.splits if_splits dest: aggregate_no_offset)

lemma applyFilter_no_offset:
  assumes "applyFilter S gen flt coll sub n = Inr (n', cs)" and "c \<in> set cs"
  shows "\<not> is_offset c"
proof -
  from assms(1) obtain st wcalls where
    j: "addJoins S sub gen flt coll \<lparr>aliasMap = [], joins = [], drawn = n\<rparr> = Inr st" and
    w: "addWhereClauses S gen sub (aliasMap st) flt coll And (drawn st) = Inr (n', wcalls)" and
    cs: "cs = joins st @ wcalls"
    by (auto simp: applyFilter.simps split: sum.splits)
  from addJoins_joins(1)[OF j] have "\<forall>c\<in>set (joins st). is_join c"
    by (auto simp: grows_def)
  moreover from addWhereClauses_calls[OF w] have "\<forall>c\<in>set wcalls. \<not> is_offset c"
    by (simp add: builds_predicates_def)
  ultimately show ?thesis using assms(2) cs by (auto dest: is_join_not_offset)
qed

lemma before_filter_page:
  assumes "limit q = Some l" "page q = Some p" "number_truthy l" "number_truthy p"
  shows "\<exists>pre. before_filter coll q =
           pre @ [Offset (Mul (Value l) (Sub (Value p) (Value (Integer 1))))]"
  using assms by (simp add: before_filter_def)

lemma safe_integer_one: "safe_integer 1"
  by (simp add: safe_integer_def)

subsection \<open>Pagination\<close>

text \<open>
  Claim C9. When \<^verbatim>\<open>query.page\<close> and \<^verbatim>\<open>query.limit\<close> are given and both are truthy
  (nonzero, not \<^verbatim>\<open>NaN\<close>), the offset in force on the builder after \<^verbatim>\<open>applyQuery\<close>
  is the double \<^verbatim>\<open>query.limit * (query.page - 1)\<close>, whatever \<^verbatim>\<open>query.offset\<close> says: the
  offset call for the page is the last one. For safe integers \<open>a\<close> and \<open>b\<close> whose
  product \<open>a * (b - 1)\<close> is safe that double is the integer \<open>a * (b - 1)\<close>. When the
  limit is absent or falsy, \<^verbatim>\<open>applyQuery\<close> does what it does without the page.
\<close>

theorem page_offset_overrides:
  "(limit q = Some l \<and> page q = Some p \<and> number_truthy l \<and> number_truthy p \<and>
      applyQuery S gen coll q sub n = Inr (n', calls)
      \<longrightarrow> effective_offset calls =
            Some (Mul (Value l) (Sub (Value p) (Value (Integer 1)))) \<and>
          (\<forall>a b. l = Integer a \<and> p = Integer b \<and> safe_integer a \<and> safe_integer b \<and>
                 safe_integer (b - 1) \<and> safe_integer (a * (b - 1))
             \<longrightarrow> (\<exists>e. effective_offset calls = Some e \<and>
                      exact_value e = Some (a * (b - 1))))) \<and>
   (limit q = None \<or> (\<exists>z. limit q = Some z \<and> \<not> number_truthy z)
      \<longrightarrow> applyQuery S gen coll q sub n = applyQuery S gen coll (q\<lparr>page := None\<rparr>) sub n)"
proof (intro conjI impI)
  assume a: "limit q = Some l \<and> page q = Some p \<and> number_truthy l \<and> number_truthy p \<and>
      applyQuery S gen coll q sub n = Inr (n', calls)"
  let ?e = "Mul (Value l) (Sub (Value p) (Value (Integer 1)))"
  from a obtain pre where pre: "before_filter coll q = pre @ [Offset ?e]"
    using before_filter_page by blast
  from a have "\<exists>rest. calls = before_filter coll q @ rest \<and> (\<forall>c\<in>set rest. \<not> is_offset c)"
    by (auto simp: applyQuery.simps split: if_splits sum.splits
             dest: applyFilter_no_offset after_filter_no_offset)
  then obtain rest where calls: "calls = before_filter coll q @ rest"
    and rest: "\<forall>c\<in>set rest. \<not> is_offset c"
    by blast
  from rest have "effective_offset rest = None" by (rule effective_offset_none)
  then show eff: "effective_offset calls = Some ?e"
    unfolding calls pre by (simp add: effective_offset_append)
  show "\<forall>a b. l = Integer a \<and> p = Integer b \<and> safe_integer a \<and> safe_integer b \<and>
                 safe_integer (b - 1) \<and> safe_integer (a * (b - 1))
             \<longrightarrow> (\<exists>e. effective_offset calls = Some e \<and>
                      exact_value e = Some (a * (b - 1)))"
    unfolding eff by (auto simp: safe_integer_one)
next
  assume z: "limit q = None \<or> (\<exists>z. limit q = Some z \<and> \<not> number_truthy z)"
  then have "before_filter coll (q\<lparr>page := None\<rparr>) = before_filter coll q"
    by (auto simp: before_filter_def split: option.splits)
  moreover have "after_filter S coll (q\<lparr>page := None\<rparr>) = after_filter S coll q"
    by (simp add: after_filter_def)
  moreover have "filter_q (q\<lparr>page := None\<rparr>) = filter_q q"
    by simp
  ultimately show "applyQuery S gen coll q sub n = applyQuery S gen coll (q\<lparr>page := None\<rparr>) sub n"
    by (simp only: applyQuery.simps)
qed

theorem page_offset_overrides_witness:
  "applyQuery demo_schema demo_alias ''pages''
     ((filter_only JUndefined)
        \<lparr>limit := Some (Integer 10), offset := Some (Integer 5), page := Some (Integer 3)\<rparr>)
     False 0 =
     Inr (0, [Limit (Integer 10), Offset (Value (Integer 5)),
              Offset (Mul (Value (Integer 10)) (Sub (Value (Integer 3)) (Value (Integer 1))))]) \<and>
   effective_offset
     [Limit (Integer 10), Offset (Value (Integer 5)),
      Offset (Mul (Value (Integer 10)) (Sub (Value (Integer 3)) (Value (Integer 1))))] =
     Some (Mul (Value (Integer 10)) (Sub (Value (Integer 3)) (Value (Integer 1)))) \<and>
   exact_value (Mul (Value (Integer 10)) (Sub (Value (Integer 3)) (Value (Integer 1)))) = Some 20 \<and>
   applyQuery demo_schema demo_alias ''pages''
     ((filter_only JUndefined)\<lparr>limit := Some (Integer 0), page := Some (Integer 3)\<rparr>) False 0 =
     Inr (0, [Limit (Integer 0)])"
proof -
  let ?q = "(filter_only JUndefined)
        \<lparr>limit := Some (Integer 10), offset := Some (Integer 5), page := Some (Integer 3)\<rparr>"
  let ?r = "(filter_only JUndefined)\<lparr>limit := Some (Integer 0), page := Some (Integer 3)\<rparr>"
  let ?e = "Mul (Value (Integer 10)) (Sub (Value (Integer 3)) (Value (Integer 1)))"
  let ?calls = "[Limit (Integer 10), Offset (Value (Integer 5)), Offset ?e]"
  have run: "applyQuery demo_schema demo_alias ''pages'' ?q False 0 = Inr (0, ?calls)"
    by (simp add: applyQuery.simps filter_only_def before_filter_def after_filter_def)
  have safe: "safe_integer 10" "safe_integer 3" "safe_integer (3 - 1)" "safe_integer (10 * (3 - 1))"
    by (simp_all add: safe_integer_def)
  from page_offset_overrides[of ?q "Integer 10" "Integer 3" demo_schema demo_alias "''pages''"
        False 0 0 ?calls] run safe
  have eff: "effective_offset ?calls = Some ?e" and ex: "exact_value ?e = Some 20"
    by (auto simp: filter_only_def)
  have "applyQuery demo_schema demo_alias ''pages'' (?r\<lparr>page := None\<rparr>) False 0 =
        Inr (0, [Limit (Integer 0)])"
    by (simp add: applyQuery.simps filter_only_def before_filter_def after_filter_def)
  with page_offset_overrides[of ?r "Integer 0" "Integer 0" demo_schema demo_alias "''pages''"
        False 0 0 "[]"]
  have "applyQuery demo_schema demo_alias ''pages'' ?r False 0 = Inr (0, [Limit (Integer 0)])"
    by (simp add: filter_only_def)
  with run eff ex show ?thesis by simp
qed

subsection \<open>The \<^verbatim>\<open>_or\<close> short-circuit\<close>

lemma some_empty_found:
  "JObj [] \<in> set xs \<Longrightarrow> JNull \<notin> set xs \<Longrightarrow> JUndefined \<notin> set xs \<Longrightarrow> some_empty xs = Inr True"
proof (induction xs)
  case Nil
  then show ?case by simp
next
  case (Cons x xs)
  then show ?case by (cases x) (auto split: sum.splits bool.splits)
qed

lemma where_entries_skip:
  "addWhereClauses_entry S gen sub am key v coll lg n = Inr (n, []) \<Longrightarrow>
   addWhereClauses_entries S gen sub am ((key, v) # rest) coll lg n =
   addWhereClauses_entries S gen sub am rest coll lg n"
  by (simp split: sum.splits prod.splits)

text \<open>
  Claim C4. An \<^verbatim>\<open>_or\<close> whose list holds an empty sub-filter object is skipped by the
  join planner and by the predicate compiler: the entry leaves the planner's state as it
  is and gives the builder no call, and the whole filter compiles as if the entry were
  not there, whatever the other branches of the \<^verbatim>\<open>_or\<close> are. The sub-filters are
  objects: none is \<^verbatim>\<open>null\<close> or \<^verbatim>\<open>undefined\<close>.
\<close>

theorem or_with_empty_branch_is_skipped:
  assumes "JObj [] \<in> set subFilters" and "JNull \<notin> set subFilters"
    and "JUndefined \<notin> set subFilters"
  shows "addJoins_entry S sub gen ''_or'' (JArr subFilters) coll st = Inr st \<and>
         addWhereClauses_entry S gen sub am ''_or'' (JArr subFilters) coll lg n = Inr (n, []) \<and>
         applyFilter S gen (JObj ((''_or'', JArr subFilters) # rest)) coll sub n =
           applyFilter S gen (JObj rest) coll sub n"
proof -
  from assms have e: "or_short_circuit ''_or'' (JArr subFilters) = Inr True"
    by (simp add: or_short_circuit_def some_empty_found)
  have j: "addJoins_entry S sub gen ''_or'' (JArr subFilters) coll st = Inr st" for st
    by (simp add: addJoins_entry.simps e)
  have w: "addWhereClauses_entry S gen sub am ''_or'' (JArr subFilters) coll lg n = Inr (n, [])"
    for am lg n
    by (simp add: addWhereClauses_entry.simps e)
  have ww: "addWhereClauses S gen sub am (JObj ((''_or'', JArr subFilters) # rest)) coll lg n =
        addWhereClauses S gen sub am (JObj rest) coll lg n" for am lg n
    by (simp add: w split: sum.splits prod.splits)
  have "applyFilter S gen (JObj ((''_or'', JArr subFilters) # rest)) coll sub n =
        applyFilter S gen (JObj rest) coll sub n"
    by (simp add: applyFilter.simps j ww del: addWhereClauses.simps cong: sum.case_cong)
  with j w show ?thesis by simp
qed

theorem or_with_empty_branch_is_skipped_witness:
  "applyFilter demo_schema demo_alias
     (JObj [(''_or'', JArr [JObj [], JObj [(''status'', JObj [(''_eq'', JStr ''draft'')])]])])
     ''pages'' False 0 = Inr (0, []) \<and>
   addWhereClauses_entry demo_schema demo_alias False [] ''_or''
     (JArr [JObj [], JObj [(''status'', JObj [(''_eq'', JStr ''draft'')])]]) ''pages'' And 0 =
     Inr (0, [])"
  using or_with_empty_branch_is_skipped[of
      "[JObj [], JObj [(''status'', JObj [(''_eq'', JStr ''draft'')])]]"
      demo_schema False demo_alias "''pages''" "\<lparr>aliasMap = [], joins = [], drawn = 0\<rparr>"
      "[]" And 0 "[]"]
  by (simp add: applyFilter.simps)

subsection \<open>Direct columns\<close>

lemma direct_entry_join:
  assumes "key \<noteq> ''_or''" "key \<noteq> ''_and''" "getFilterPath key v = Inr [seg]"
  shows "addJoins_entry S sub gen key v coll st = Inr st"
  using assms by (simp add: addJoins_entry.simps)

lemma direct_entry_where:
  assumes "key \<noteq> ''_or''" "key \<noteq> ''_and''" "getFilterPath key v = Inr [seg]"
    and "relationType_of S coll (pathRoot_of key) \<noteq> Some O2M"
  shows "addWhereClauses_entry S gen sub am key v coll lg n =
     (case getOperation key v of
        Inl e \<Rightarrow> Inl e
      | Inr (operator, compareValue) \<Rightarrow>
          leaf_result n (applyFilterToQuery (coll @ ''.'' @ key) operator compareValue lg))"
proof -
  from getFilterPath_head[OF assms(3)] have seg: "seg = key" by simp
  from assms(4) have t: "relationType_of S coll (pathRoot_of key) = Some M2O \<or>
      relationType_of S coll (pathRoot_of key) = Some M2A \<or>
      relationType_of S coll (pathRoot_of key) = None"
    by (cases "relationType_of S coll (pathRoot_of key)") (auto intro: relation_type.exhaust)
  show ?thesis
    using assms(1-3) t unfolding seg
    by (subst addWhereClauses_entry.simps)
       (auto simp: column_predicate_def Let_def split: sum.splits prod.splits)
qed

lemma relationType_of_None:
  "find_relation S coll root = None \<Longrightarrow> relationType_of S coll root = None"
  by (simp add: relationType_of_def)

lemma leaf_result_no_InvalidQuery:
  "leaf_result n (applyFilterToQuery k op v lg) \<noteq> Inl (InvalidQuery m)"
  using applyFilterToQuery_no_InvalidQuery[of k op v lg m]
  by (auto simp: leaf_result_def split: sum.splits)

lemma direct_entries_join:
  assumes "\<forall>(key, v)\<in>set kvs. key \<noteq> ''_or'' \<and> key \<noteq> ''_and'' \<and> getFilterPath key v = Inr [key]"
  shows "addJoins_entries S sub gen kvs coll st = Inr st"
  using assms by (induction kvs) (auto simp: direct_entry_join)

lemma direct_entries_where:
  assumes "\<forall>(key, v)\<in>set kvs. key \<noteq> ''_or'' \<and> key \<noteq> ''_and'' \<and>
             getFilterPath key v = Inr [key] \<and> find_relation S coll (pathRoot_of key) = None"
  shows "addWhereClauses_entries S gen sub am kvs coll lg n \<noteq> Inl (InvalidQuery m)"
  using assms
proof (induction kvs arbitrary: n)
  case Nil
  then show ?case by simp
next
  case (Cons kv kvs)
  obtain key v where kv: "kv = (key, v)" by (cases kv)
  from Cons.prems kv have k: "key \<noteq> ''_or''" "key \<noteq> ''_and''" "getFilterPath key v = Inr [key]"
    "relationType_of S coll (pathRoot_of key) \<noteq> Some O2M"
    by (auto simp: relationType_of_None)
  have e: "addWhereClauses_entry S gen sub am key v coll lg n \<noteq> Inl (InvalidQuery m)"
    unfolding direct_entry_where[OF k]
    using getOperation_no_InvalidQuery[of key v m] leaf_result_no_InvalidQuery
    by (auto split: sum.splits)
  from Cons.prems have "\<And>n. addWhereClauses_entries S gen sub am kvs coll lg n \<noteq> Inl (InvalidQuery m)"
    by (intro Cons.IH) simp
  with e show ?case unfolding kv by (auto split: sum.splits)
qed

text \<open>
  Claim C10. A filter whose keys are single segments that match no relation never ends
  in \<open>InvalidQuery\<close>: the join planner leaves it alone and each entry is compiled by
  \<^verbatim>\<open>applyFilterToQuery\<close> on the column \<^verbatim>\<open>`${collection}.${key}`\<close>. The schema's map
  of fields is not consulted, so the field may be absent from it.
\<close>

theorem direct_column_never_invalid_query:
  assumes "\<forall>(key, v)\<in>set kvs. key \<noteq> ''_or'' \<and> key \<noteq> ''_and'' \<and>
             getFilterPath key v = Inr [key] \<and> find_relation S coll (pathRoot_of key) = None"
  shows "applyFilter S gen (JObj kvs) coll sub n \<noteq> Inl (InvalidQuery m) \<and>
         (\<forall>(key, v)\<in>set kvs.
            addWhereClauses_entry S gen sub am key v coll lg k =
              (case getOperation key v of
                 Inl e \<Rightarrow> Inl e
               | Inr (operator, compareValue) \<Rightarrow>
                   leaf_result k (applyFilterToQuery (coll @ ''.'' @ key) operator compareValue lg)))"
proof
  from assms have "addJoins_entries S sub gen kvs coll st = Inr st" for st
    by (intro direct_entries_join) auto
  then show "applyFilter S gen (JObj kvs) coll sub n \<noteq> Inl (InvalidQuery m)"
    using direct_entries_where[OF assms, of gen sub "[]" And n m]
    by (auto simp: applyFilter.simps split: sum.splits)
next
  show "\<forall>(key, v)\<in>set kvs.
            addWhereClauses_entry S gen sub am key v coll lg k =
              (case getOperation key v of
                 Inl e \<Rightarrow> Inl e
               | Inr (operator, compareValue) \<Rightarrow>
                   leaf_result k (applyFilterToQuery (coll @ ''.'' @ key) operator compareValue lg))"
    using assms by (auto simp: relationType_of_None intro!: direct_entry_where)
qed

theorem direct_column_never_invalid_query_witness:
  "applyFilter demo_schema demo_alias (JObj [(''subtitle'', JObj [(''_eq'', JStr ''x'')])])
     ''pages'' False 0 \<noteq> Inl (InvalidQuery ScopeRequired) \<and>
   addWhereClauses_entry demo_schema demo_alias False [] ''subtitle''
     (JObj [(''_eq'', JStr ''x'')]) ''pages'' And 0 =
     Inr (0, [Where And (GetColumn (Some ''pages'') (Some ''subtitle'')) ''='' (Val (JStr ''x''))])"
  using direct_column_never_invalid_query[of "[(''subtitle'', JObj [(''_eq'', JStr ''x'')])]"
      demo_schema "''pages''" demo_alias False 0 ScopeRequired "[]" And 0]
  by (simp add: demo_defs getOperation.simps leaf_result_def leaf_defs selection_def Let_def)

subsection \<open>Comparands that are \<^verbatim>\<open>undefined\<close>\<close>

lemma undefined_comparand_no_call:
  "operator \<notin> {''_null'', ''_nnull'', ''_empty'', ''_nempty''} \<Longrightarrow>
     applyFilterToQuery key operator JUndefined lg = Inr []"
  by (simp add: applyFilterToQuery_def valueless_calls_def)

lemma undefined_entries_removed:
  "applyFilterToQuery key operator (JArr xs) lg =
     applyFilterToQuery key operator (JArr (filter (\<lambda>val. val \<noteq> JUndefined) xs)) lg"
  by (simp add: applyFilterToQuery_def without_undefined_def valueless_calls_def Let_def)

lemma array_comparand_calls:
  "applyFilterToQuery key ''_eq'' (JArr xs) lg =
     Inr [Where lg (selection key) ''='' (Val (JArr (filter (\<lambda>val. val \<noteq> JUndefined) xs)))]"
  "applyFilterToQuery key ''_in'' (JArr xs) lg =
     Inr [WhereIn lg (selection key) (JArr (filter (\<lambda>val. val \<noteq> JUndefined) xs))]"
  "applyFilterToQuery key ''_nin'' (JArr xs) lg =
     Inr [WhereNotIn lg (selection key) (JArr (filter (\<lambda>val. val \<noteq> JUndefined) xs))]"
  "length (filter (\<lambda>val. val \<noteq> JUndefined) xs) = 2 \<Longrightarrow>
   applyFilterToQuery key ''_between'' (JArr xs) lg =
     Inr [WhereBetween lg (selection key) (JArr (filter (\<lambda>val. val \<noteq> JUndefined) xs))]"
  "length (filter (\<lambda>val. val \<noteq> JUndefined) xs) = 2 \<Longrightarrow>
   applyFilterToQuery key ''_nbetween'' (JArr xs) lg =
     Inr [WhereNotBetween lg (selection key) (JArr (filter (\<lambda>val. val \<noteq> JUndefined) xs))]"
  by (simp_all add: leaf_defs Let_def)

lemma undefined_leaf_where:
  assumes "key \<noteq> ''_or''" "key \<noteq> ''_and''"
    and "getFilterPath key v = Inr path"
    and "getOperation key v = Inr (operator, JUndefined)"
    and "operator \<notin> {''_null'', ''_nnull'', ''_empty'', ''_nempty''}"
    and "relationType_of S coll (pathRoot_of key) \<noteq> Some O2M"
    and "length path > 1 \<longrightarrow> (\<exists>c. getWhereColumn S am path coll = Inr c)"
  shows "addWhereClauses_entry S gen sub am key v coll lg n = Inr (n, [])"
proof -
  from getFilterPath_head[OF assms(3)] obtain rest where path: "path = key # rest" by blast
  from assms(6) have t: "relationType_of S coll (pathRoot_of key) = Some M2O \<or>
      relationType_of S coll (pathRoot_of key) = Some M2A \<or>
      relationType_of S coll (pathRoot_of key) = None"
    by (cases "relationType_of S coll (pathRoot_of key)") (auto intro: relation_type.exhaust)
  have c: "column_predicate S am path key coll operator JUndefined lg n = Inr (n, [])"
    using assms(7)
    by (auto simp: column_predicate_def leaf_result_def undefined_comparand_no_call[OF assms(5)]
             split: option.splits)
  show ?thesis
    using assms(1,2) t
    by (subst addWhereClauses_entry.simps)
       (auto simp: assms(3,4) c[unfolded path] path Let_def)
qed

lemma undefined_leaves_where:
  assumes "\<forall>(k, v)\<in>set kvs. k \<noteq> ''_or'' \<and> k \<noteq> ''_and'' \<and>
             relationType_of S coll (pathRoot_of k) \<noteq> Some O2M \<and>
             (\<exists>path op. getFilterPath k v = Inr path \<and>
                getOperation k v = Inr (op, JUndefined) \<and>
                op \<notin> {''_null'', ''_nnull'', ''_empty'', ''_nempty''} \<and>
                (length path > 1 \<longrightarrow> (\<exists>c. getWhereColumn S am path coll = Inr c)))"
  shows "addWhereClauses_entries S gen sub am kvs coll lg n = Inr (n, [])"
  using assms
proof (induction kvs)
  case Nil
  then show ?case by simp
next
  case (Cons kv kvs)
  obtain k v where kv: "kv = (k, v)" by (cases kv)
  from Cons.prems kv obtain path op where k: "k \<noteq> ''_or''" "k \<noteq> ''_and''"
    and p: "getFilterPath k v = Inr path"
    and op: "getOperation k v = Inr (op, JUndefined)"
      "op \<notin> {''_null'', ''_nnull'', ''_empty'', ''_nempty''}"
    and ty: "relationType_of S coll (pathRoot_of k) \<noteq> Some O2M"
    and col: "length path > 1 \<longrightarrow> (\<exists>c. getWhereColumn S am path coll = Inr c)"
    by auto
  have e: "addWhereClauses_entry S gen sub am k v coll lg n = Inr (n, [])"
    by (rule undefined_leaf_where[OF k p op ty col])
  from Cons.prems have "addWhereClauses_entries S gen sub am kvs coll lg n = Inr (n, [])"
    by (intro Cons.IH) simp
  with e show ?case unfolding kv by simp
qed

text \<open>
  Claim C5, as amended. Wherever the predicate compiler applies an operator that needs a
  comparand to the comparand \<^verbatim>\<open>undefined\<close>, it gives the builder no call and raises
  nothing. So a leaf at the top level of the filter that does not start with a
  one-to-many relation and whose path resolves gives no predicate, and a filter made
  only of such leaves, when the join planner raises nothing on it, puts on the builder
  the joins of their paths and nothing else.
  Every operator compiles an array comparand as it compiles the array without its
  \<^verbatim>\<open>undefined\<close> entries; with \<^verbatim>\<open>_eq\<close>, \<^verbatim>\<open>_in\<close> and \<^verbatim>\<open>_nin\<close>, and with
  \<^verbatim>\<open>_between\<close> and \<^verbatim>\<open>_nbetween\<close> when two entries remain, the array reaches the
  builder without its \<^verbatim>\<open>undefined\<close> entries and with all the others, in their order.
\<close>

theorem undefined_comparand_is_skipped:
  "(operator \<notin> {''_null'', ''_nnull'', ''_empty'', ''_nempty''}
      \<longrightarrow> applyFilterToQuery key operator JUndefined lg = Inr []) \<and>
   applyFilterToQuery key operator (JArr xs) lg =
     applyFilterToQuery key operator (JArr (filter (\<lambda>val. val \<noteq> JUndefined) xs)) lg \<and>
   applyFilterToQuery key ''_eq'' (JArr xs) lg =
     Inr [Where lg (selection key) ''='' (Val (JArr (filter (\<lambda>val. val \<noteq> JUndefined) xs)))] \<and>
   applyFilterToQuery key ''_in'' (JArr xs) lg =
     Inr [WhereIn lg (selection key) (JArr (filter (\<lambda>val. val \<noteq> JUndefined) xs))] \<and>
   applyFilterToQuery key ''_nin'' (JArr xs) lg =
     Inr [WhereNotIn lg (selection key) (JArr (filter (\<lambda>val. val \<noteq> JUndefined) xs))] \<and>
   (length (filter (\<lambda>val. val \<noteq> JUndefined) xs) = 2 \<longrightarrow>
      applyFilterToQuery key ''_between'' (JArr xs) lg =
        Inr [WhereBetween lg (selection key) (JArr (filter (\<lambda>val. val \<noteq> JUndefined) xs))] \<and>
      applyFilterToQuery key ''_nbetween'' (JArr xs) lg =
        Inr [WhereNotBetween lg (selection key)
               (JArr (filter (\<lambda>val. val \<noteq> JUndefined) xs))]) \<and>
   (k \<noteq> ''_or'' \<and> k \<noteq> ''_and'' \<and> getFilterPath k v = Inr path \<and>
    getOperation k v = Inr (operator, JUndefined) \<and>
    operator \<notin> {''_null'', ''_nnull'', ''_empty'', ''_nempty''} \<and>
    relationType_of S coll (pathRoot_of k) \<noteq> Some O2M \<and>
    (length path > 1 \<longrightarrow> (\<exists>c. getWhereColumn S am path coll = Inr c))
      \<longrightarrow> addWhereClauses_entry S gen sub am k v coll lg m = Inr (m, [])) \<and>
   (addJoins S sub gen (JObj kvs) coll \<lparr>aliasMap = [], joins = [], drawn = n\<rparr> = Inr st \<and>
    (\<forall>(k, v)\<in>set kvs. k \<noteq> ''_or'' \<and> k \<noteq> ''_and'' \<and>
        relationType_of S coll (pathRoot_of k) \<noteq> Some O2M \<and>
        (\<exists>path op. getFilterPath k v = Inr path \<and>
           getOperation k v = Inr (op, JUndefined) \<and>
           op \<notin> {''_null'', ''_nnull'', ''_empty'', ''_nempty''} \<and>
           (length path > 1 \<longrightarrow> (\<exists>c. getWhereColumn S (aliasMap st) path coll = Inr c))))
      \<longrightarrow> applyFilter S gen (JObj kvs) coll sub n = Inr (drawn st, joins st) \<and>
          (\<forall>c\<in>set (joins st). is_join c))"
proof (intro conjI impI)
  assume "operator \<notin> {''_null'', ''_nnull'', ''_empty'', ''_nempty''}"
  then show "applyFilterToQuery key operator JUndefined lg = Inr []"
    by (rule undefined_comparand_no_call)
next
  show "applyFilterToQuery key operator (JArr xs) lg =
     applyFilterToQuery key operator (JArr (filter (\<lambda>val. val \<noteq> JUndefined) xs)) lg"
    by (rule undefined_entries_removed)
next
  assume "k \<noteq> ''_or'' \<and> k \<noteq> ''_and'' \<and> getFilterPath k v = Inr path \<and>
    getOperation k v = Inr (operator, JUndefined) \<and>
    operator \<notin> {''_null'', ''_nnull'', ''_empty'', ''_nempty''} \<and>
    relationType_of S coll (pathRoot_of k) \<noteq> Some O2M \<and>
    (length path > 1 \<longrightarrow> (\<exists>c. getWhereColumn S am path coll = Inr c))"
  then show "addWhereClauses_entry S gen sub am k v coll lg m = Inr (m, [])"
    by (intro undefined_leaf_where[where path = path and operator = operator]) simp_all
next
  assume a: "addJoins S sub gen (JObj kvs) coll \<lparr>aliasMap = [], joins = [], drawn = n\<rparr> = Inr st \<and>
    (\<forall>(k, v)\<in>set kvs. k \<noteq> ''_or'' \<and> k \<noteq> ''_and'' \<and>
        relationType_of S coll (pathRoot_of k) \<noteq> Some O2M \<and>
        (\<exists>path op. getFilterPath k v = Inr path \<and>
           getOperation k v = Inr (op, JUndefined) \<and>
           op \<notin> {''_null'', ''_nnull'', ''_empty'', ''_nempty''} \<and>
           (length path > 1 \<longrightarrow> (\<exists>c. getWhereColumn S (aliasMap st) path coll = Inr c))))"
  then have j: "addJoins S sub gen (JObj kvs) coll \<lparr>aliasMap = [], joins = [], drawn = n\<rparr> = Inr st"
    by simp
  from a have w: "addWhereClauses_entries S gen sub (aliasMap st) kvs coll And (drawn st) =
                  Inr (drawn st, [])"
    by (intro undefined_leaves_where) simp
  from j w show "applyFilter S gen (JObj kvs) coll sub n = Inr (drawn st, joins st)"
    by (simp add: applyFilter.simps)
  from addJoins_joins(1)[OF j] show "\<forall>c\<in>set (joins st). is_join c"
    by (auto simp: grows_def)
qed (simp_all add: array_comparand_calls)

theorem undefined_comparand_is_skipped_witness:
  "applyFilterToQuery ''articles.title'' ''_gt'' JUndefined And = Inr [] \<and>
   applyFilterToQuery ''articles.title'' ''_in'' (JArr [JNum 1, JUndefined, JNum 2]) And =
     Inr [WhereIn And (GetColumn (Some ''articles'') (Some ''title'')) (JArr [JNum 1, JNum 2])] \<and>
   addWhereClauses_entry demo_schema demo_alias False [] ''title'' (JObj [(''_gt'', JUndefined)])
     ''articles'' And 0 = Inr (0, []) \<and>
   applyFilter demo_schema demo_alias
     (JObj [(''author'', JObj [(''name'', JObj [(''_eq'', JUndefined)])]),
            (''title'', JObj [(''_gt'', JUndefined)])])
     ''articles'' False 0 =
     Inr (1, [LeftJoin ''aaaaa'' ''authors'' ''articles.author'' ''aaaaa.id''])"
proof -
  let ?kvs = "[(''author'', JObj [(''name'', JObj [(''_eq'', JUndefined)])]),
               (''title'', JObj [(''_gt'', JUndefined)])]"
  let ?st = "\<lparr>aliasMap = [(''author'', Nested [(''name'', Alias ''aaaaa'')])],
              joins = [LeftJoin ''aaaaa'' ''authors'' ''articles.author'' ''aaaaa.id''],
              drawn = 1\<rparr>"
  have j: "addJoins demo_schema False demo_alias (JObj ?kvs) ''articles''
             \<lparr>aliasMap = [], joins = [], drawn = 0\<rparr> = Inr ?st"
    by (simp add: demo_defs run_defs)
  have ty: "relationType_of demo_schema ''articles'' (pathRoot_of ''author'') \<noteq> Some O2M"
    "relationType_of demo_schema ''articles'' (pathRoot_of ''title'') \<noteq> Some O2M"
    by (simp_all add: demo_defs)
  have col: "getWhereColumn demo_schema (aliasMap ?st) [''author'', ''name''] ''articles'' =
             Inr (Some ''aaaaa.name'')"
    by (simp add: demo_defs run_defs)
  have op: "getOperation ''author'' (JObj [(''name'', JObj [(''_eq'', JUndefined)])]) =
              Inr (''_eq'', JUndefined)"
    "getOperation ''title'' (JObj [(''_gt'', JUndefined)]) = Inr (''_gt'', JUndefined)"
    by (simp_all add: getOperation.simps)
  have leaves: "\<forall>(k, v)\<in>set ?kvs. k \<noteq> ''_or'' \<and> k \<noteq> ''_and'' \<and>
        relationType_of demo_schema ''articles'' (pathRoot_of k) \<noteq> Some O2M \<and>
        (\<exists>path op. getFilterPath k v = Inr path \<and>
           getOperation k v = Inr (op, JUndefined) \<and>
           op \<notin> {''_null'', ''_nnull'', ''_empty'', ''_nempty''} \<and>
           (length path > 1 \<longrightarrow>
              (\<exists>c. getWhereColumn demo_schema (aliasMap ?st) path ''articles'' = Inr c)))"
    using ty col op by simp
  note t = undefined_comparand_is_skipped[where operator = "''_gt''" and key = "''articles.title''"
      and lg = And and xs = "[JNum 1, JUndefined, JNum 2]" and k = "''title''"
      and v = "JObj [(''_gt'', JUndefined)]" and path = "[''title'']" and S = demo_schema
      and coll = "''articles''" and am = "[]" and gen = demo_alias and sub = False and m = 0
      and kvs = ?kvs and n = 0 and st = ?st]
  have gp: "getFilterPath ''title'' (JObj [(''_gt'', JUndefined)]) = Inr [''title'']"
    by simp
  have a: "applyFilterToQuery ''articles.title'' ''_gt'' JUndefined And = Inr []"
    using t by simp
  have b: "applyFilterToQuery ''articles.title'' ''_in'' (JArr [JNum 1, JUndefined, JNum 2]) And =
     Inr [WhereIn And (GetColumn (Some ''articles'') (Some ''title'')) (JArr [JNum 1, JNum 2])]"
    using t by (simp add: selection_def)
  have c: "addWhereClauses_entry demo_schema demo_alias False [] ''title''
     (JObj [(''_gt'', JUndefined)]) ''articles'' And 0 = Inr (0, [])"
    using t ty(2) op(2) gp by simp
  have d: "applyFilter demo_schema demo_alias (JObj ?kvs) ''articles'' False 0 =
     Inr (drawn ?st, joins ?st)"
    using t j leaves by blast
  from a b c d show ?thesis by simp
qed

text \<open>
  Claim C5, as stated, fails for a leaf below a one-to-many hop at the top level: the
  predicate compiler answers the hop with \<^verbatim>\<open>whereIn\<close> on a subselect before it looks
  at the comparand, so the query is constrained to the rows that have related rows; the
  subselect has no predicate for the leaf.
\<close>

theorem undefined_comparand_below_one_to_many:
  "getOperation ''articles'' (JObj [(''title'', JObj [(''_eq'', JUndefined)])]) =
     Inr (''_eq'', JUndefined) \<and>
   applyFilter demo_schema demo_alias
     (JObj [(''articles'', JObj [(''title'', JObj [(''_eq'', JUndefined)])])]) ''pages'' False 0 =
     Inr (1, [WhereInSubquery And ''pages.id''
                (Inr [Select ''page_id'' ''articles.page_id'', From ''articles''])])"
  by (simp add: demo_defs run_defs leaf_defs)


subsection \<open>One-to-many leaves at the top level\<close>

lemma getRelationType_O2M:
  "getRelationType rel coll root = Some O2M \<Longrightarrow> related_collection rel = Some coll"
  by (auto simp: getRelationType_def split: if_splits)

lemma relationType_of_found:
  "find_relation S coll root = Some rel \<Longrightarrow>
     relationType_of S coll root = getRelationType rel coll root"
  by (simp add: relationType_of_def)

lemma o2m_root_hop_no_join:
  assumes "find_relation S coll (pathRoot_of part) = Some rel"
    and "getRelationType rel coll (pathRoot_of part) = Some O2M"
  shows "addJoin_followRelation S False gen (part # rest) coll None st =
     Inr (st\<lparr>aliasMap := lodash_set (aliasMap st) (part # rest) (gen (drawn st)),
             drawn := Suc (drawn st)\<rparr>)"
  using assms by (simp add: addJoin_followRelation.simps Let_def join_key_def)

lemma o2m_entry_join:
  assumes "key \<noteq> ''_or''" "key \<noteq> ''_and''"
    and "getFilterPath key v = Inr path"
    and "find_relation S coll (pathRoot_of key) = Some rel"
    and "getRelationType rel coll (pathRoot_of key) = Some O2M"
  shows "addJoins_entry S False gen key v coll st =
     Inr (if length path > 1
          then st\<lparr>aliasMap := lodash_set (aliasMap st) path (gen (drawn st)),
                  drawn := Suc (drawn st)\<rparr>
          else st)"
proof -
  from getFilterPath_head[OF assms(3)] obtain rest where path: "path = key # rest" by blast
  show ?thesis
    using assms(1,2,3) unfolding path
    by (simp add: addJoins_entry.simps addJoin_def o2m_root_hop_no_join[OF assms(4,5)])
qed

lemma o2m_entry_where:
  assumes "key \<noteq> ''_or''" "key \<noteq> ''_and''"
    and "getFilterPath key v = Inr path"
    and "getOperation key v = Inr opv"
    and "find_relation S coll (pathRoot_of key) = Some rel"
    and "getRelationType rel coll (pathRoot_of key) = Some O2M"
    and "map_of (collections S) coll = Some ov"
  shows "addWhereClauses_entry S gen False am key v coll lg n =
     (let r = applyQuery S gen (collection rel) (filter_only v) True n
      in Inr (drawn_after n r,
              [WhereInSubquery lg (coll @ ''.'' @ primary ov) (deferred (subselect rel) r)]))"
proof -
  from getFilterPath_head[OF assms(3)] obtain rest where path: "path = key # rest" by blast
  have pk: "primary_of S (related_collection rel) = Inr (primary ov)"
    using getRelationType_O2M[OF assms(6)] assms(7) by (simp add: primary_of_def)
  obtain op val where opv: "opv = (op, val)" by (cases opv)
  show ?thesis
    using assms(1,2)
    by (subst addWhereClauses_entry.simps)
       (simp add: assms(3,4,5,6) path opv relationType_of_found[OF assms(5)] pk Let_def)
qed

lemma subselect_eq:
  "subselect rel =
     (\<lambda>calls. Select (field rel) (collection rel @ ''.'' @ field rel) # From (collection rel) # calls)"
  by (simp add: subselect_def fun_eq_iff)

text \<open>
  Claim C1. Outside subquery mode, a leaf whose first segment is a one-to-many relation
  of the collection is compiled to one call
  \<^verbatim>\<open>whereIn(`${collection}.${primary key}`, callback)\<close>: the callback selects
  \<^verbatim>\<open>relation.field\<close> from \<^verbatim>\<open>relation.collection\<close> and runs \<^verbatim>\<open>applyQuery\<close> on that
  collection with the query \<^verbatim>\<open>{ filter: value }\<close> in subquery mode. The join planner
  adds no join for the entry, so a filter with this one leaf gives the builder the
  \<^verbatim>\<open>whereIn\<close> call and nothing else. (The planner still draws an alias when the path
  has more than one segment, which the subselect's own draws follow.)
\<close>

theorem one_to_many_leaf_is_subselect:
  assumes "key \<noteq> ''_or''" and "key \<noteq> ''_and''"
    and "getFilterPath key v = Inr path"
    and "getOperation key v = Inr opv"
    and "find_relation S coll (pathRoot_of key) = Some rel"
    and "getRelationType rel coll (pathRoot_of key) = Some O2M"
    and "map_of (collections S) coll = Some ov"
  shows "(\<exists>st'. addJoins_entry S False gen key v coll st = Inr st' \<and> joins st' = joins st) \<and>
    addWhereClauses_entry S gen False am key v coll lg n =
      (let r = applyQuery S gen (collection rel) (filter_only v) True n
       in Inr (drawn_after n r,
               [WhereInSubquery lg (coll @ ''.'' @ primary ov)
                  (deferred
                     (\<lambda>calls. Select (field rel) (collection rel @ ''.'' @ field rel) #
                               From (collection rel) # calls)
                     r)])) \<and>
    applyFilter S gen (JObj [(key, v)]) coll False n =
      (let n1 = (if length path > 1 then Suc n else n);
           r = applyQuery S gen (collection rel) (filter_only v) True n1
       in Inr (drawn_after n1 r,
               [WhereInSubquery And (coll @ ''.'' @ primary ov)
                  (deferred
                     (\<lambda>calls. Select (field rel) (collection rel @ ''.'' @ field rel) #
                               From (collection rel) # calls)
                     r)]))"
proof (intro conjI)
  note j = o2m_entry_join[OF assms(1,2,3,5,6)]
  note w = o2m_entry_where[OF assms, unfolded subselect_eq]
  show "\<exists>st'. addJoins_entry S False gen key v coll st = Inr st' \<and> joins st' = joins st"
    by (simp add: j)
  show "addWhereClauses_entry S gen False am key v coll lg n =
      (let r = applyQuery S gen (collection rel) (filter_only v) True n
       in Inr (drawn_after n r,
               [WhereInSubquery lg (coll @ ''.'' @ primary ov)
                  (deferred
                     (\<lambda>calls. Select (field rel) (collection rel @ ''.'' @ field rel) #
                               From (collection rel) # calls)
                     r)]))"
    by (rule w)
  show "applyFilter S gen (JObj [(key, v)]) coll False n =
      (let n1 = (if length path > 1 then Suc n else n);
           r = applyQuery S gen (collection rel) (filter_only v) True n1
       in Inr (drawn_after n1 r,
               [WhereInSubquery And (coll @ ''.'' @ primary ov)
                  (deferred
                     (\<lambda>calls. Select (field rel) (collection rel @ ''.'' @ field rel) #
                               From (collection rel) # calls)
                     r)]))"
    by (simp add: applyFilter.simps j w Let_def)
qed

theorem one_to_many_leaf_is_subselect_witness:
  "applyFilter demo_schema demo_alias
     (JObj [(''articles'', JObj [(''title'', JObj [(''_eq'', JStr ''x'')])])]) ''pages'' False 0 =
   Inr (1, [WhereInSubquery And ''pages.id''
              (Inr [Select ''page_id'' ''articles.page_id'', From ''articles'',
                    Where And (GetColumn (Some ''articles'') (Some ''title'')) ''=''
                      (Val (JStr ''x''))])])"
  using one_to_many_leaf_is_subselect[of "''articles''"
      "JObj [(''title'', JObj [(''_eq'', JStr ''x'')])]" "[''articles'', ''title'']"
      "(''_eq'', JStr ''x'')" demo_schema "''pages''"
      "\<lparr>collection = ''articles'', field = ''page_id'', related_collection = Some ''pages'',
        meta = Some \<lparr>one_field = Some ''articles'', one_collection_field = None\<rparr>\<rparr>"
      "\<lparr>primary = ''id'', fields_map = [(''id'', ''integer''), (''title'', ''string'')]\<rparr>"
      demo_alias "\<lparr>aliasMap = [], joins = [], drawn = 0\<rparr>" "[]" And 0]
  by (simp add: demo_defs run_defs leaf_defs)

subsection \<open>Leaves at any position of the top level\<close>


lemma addWhereClauses_entries_append:
  "addWhereClauses_entries S gen sub am (xs @ ys) coll lg n =
     (case addWhereClauses_entries S gen sub am xs coll lg n of
        Inl e \<Rightarrow> Inl e
      | Inr (n1, calls1) \<Rightarrow>
          (case addWhereClauses_entries S gen sub am ys coll lg n1 of
             Inl e \<Rightarrow> Inl e
           | Inr (n2, calls2) \<Rightarrow> Inr (n2, calls1 @ calls2)))"
proof (induction xs arbitrary: n)
  case Nil
  then show ?case by (simp split: sum.splits)
next
  case (Cons kv xs)
  obtain k v where kv: "kv = (k, v)" by (cases kv)
  show ?case unfolding kv by (simp add: Cons.IH split: sum.splits prod.splits)
qed


lemma where_error_at_leaf:
  assumes "key \<noteq> ''_or''" "key \<noteq> ''_and''"
    and "getFilterPath key v = Inr path" and "length path > 1"
    and "getOperation key v = Inr opv"
    and "relationType_of S coll (pathRoot_of key) \<noteq> Some O2M"
    and "addJoins S sub gen (JObj (before @ (key, v) # others)) coll
           \<lparr>aliasMap = [], joins = [], drawn = n\<rparr> = Inr st"
    and "addWhereClauses_entries S gen sub (aliasMap st) before coll And (drawn st) =
           Inr (nb, cb)"
    and "getWhereColumn S (aliasMap st) path coll = Inl e"
  shows "applyFilter S gen (JObj (before @ (key, v) # others)) coll sub n = Inl e"
proof -
  from getFilterPath_head[OF assms(3)] obtain rest where path: "path = key # rest"
    by blast
  from assms(6) have t: "relationType_of S coll (pathRoot_of key) = Some M2O \<or>
      relationType_of S coll (pathRoot_of key) = Some M2A \<or>
      relationType_of S coll (pathRoot_of key) = None"
    by (cases "relationType_of S coll (pathRoot_of key)") (auto intro: relation_type.exhaust)
  obtain op val where opv: "opv = (op, val)" by (cases opv)
  have c: "column_predicate S (aliasMap st) (key # rest) key coll op val And nb = Inl e"
    using assms(4,9) unfolding path by (simp add: column_predicate_def)
  have e: "addWhereClauses_entry S gen sub (aliasMap st) key v coll And nb = Inl e"
    using assms(1,2) t assms(3,5) unfolding path opv
    by (subst addWhereClauses_entry.simps) (auto simp: c Let_def)
  from assms(7,8) show ?thesis
    by (simp add: applyFilter.simps addWhereClauses_entries_append e)
qed

subsection \<open>Many-to-any hops\<close>









subsection \<open>Segments that are no relation\<close>

lemma where_walk_unresolved:
  assumes "resolve_path S parent pre = Some target"
    and "find_relation S target (pathRoot_of seg) = None"
    and "post \<noteq> []"
  shows "getWhereColumn_followRelation S am (pre @ seg # post) parent wa =
           Inl (InvalidQuery (NotRelationalField target (pathRoot_of seg)))"
  using assms
proof (induction pre arbitrary: parent wa)
  case Nil
  then show ?case by (simp add: getWhereColumn_followRelation.simps)
next
  case (Cons part pre)
  from Cons.prems(1) obtain rel p where
    rel: "find_relation S parent (pathRoot_of part) = Some rel" and
    p: "where_parent rel (getRelationType rel parent (pathRoot_of part)) (pathScope_of part) = Inr p"
    and r: "resolve_path S p pre = Some target"
    by (auto split: option.splits sum.splits)
  from Cons.prems(3) have "length (pre @ seg # post) \<ge> 2"
    by (cases post) auto
  then obtain x y zs where long: "pre @ seg # post = x # y # zs"
    by (cases "pre @ seg # post"; cases "tl (pre @ seg # post)") auto
  have "getWhereColumn_followRelation S am ((part # pre) @ seg # post) parent wa =
        getWhereColumn_followRelation S am (pre @ seg # post) p
          (lodash_get am (where_key wa (part # pre @ seg # post)))"
    by (simp add: getWhereColumn_followRelation.simps[of _ _ part] rel p Let_def long)
  then show ?case
    using Cons.IH[OF r Cons.prems(2,3)] by simp
qed

text \<open>
  Claim C8, as amended. A leaf at the top level of the filter whose first segment is no
  one-to-many relation, whose path resolves up to a segment before the last, and whose
  next segment is no relation of the collection reached, makes \<^verbatim>\<open>applyFilter\<close> throw
  \<open>InvalidQuery\<close> ("is not a relational field") when the join planner has gone
  through the filter and the predicate compiler through the entries before the leaf:
  the join planner passes over such a segment in silence, the predicate compiler throws
  at it, however deep it is and whatever relations come before it.
\<close>

theorem unresolved_segment_raises:
  assumes "key \<noteq> ''_or''" and "key \<noteq> ''_and''"
    and "getFilterPath key v = Inr (pre @ seg # post)" and "post \<noteq> []"
    and "getOperation key v = Inr opv"
    and "relationType_of S coll (pathRoot_of key) \<noteq> Some O2M"
    and "resolve_path S coll pre = Some target"
    and "find_relation S target (pathRoot_of seg) = None"
    and "addJoins S sub gen (JObj (before @ (key, v) # others)) coll
           \<lparr>aliasMap = [], joins = [], drawn = n\<rparr> = Inr st"
    and "addWhereClauses_entries S gen sub (aliasMap st) before coll And (drawn st) =
           Inr (nb, cb)"
  shows "getWhereColumn S am (pre @ seg # post) coll =
           Inl (InvalidQuery (NotRelationalField target (pathRoot_of seg))) \<and>
         applyFilter S gen (JObj (before @ (key, v) # others)) coll sub n =
           Inl (InvalidQuery (NotRelationalField target (pathRoot_of seg)))"
proof
  show w: "getWhereColumn S am (pre @ seg # post) coll =
           Inl (InvalidQuery (NotRelationalField target (pathRoot_of seg)))" for am
    unfolding getWhereColumn_def by (rule where_walk_unresolved[OF assms(7,8,4)])
  from assms(4) have len: "length (pre @ seg # post) > 1" by (cases post) auto
  show "applyFilter S gen (JObj (before @ (key, v) # others)) coll sub n =
           Inl (InvalidQuery (NotRelationalField target (pathRoot_of seg)))"
    by (rule where_error_at_leaf[OF assms(1,2,3) len assms(5,6,9,10) w])
qed

theorem unresolved_segment_raises_witness:
  "applyFilter demo_schema demo_alias
     (JObj [(''title'', JObj [(''_eq'', JStr ''y'')]),
            (''author'', JObj [(''bogus'', JObj [(''name'', JObj [(''_eq'', JStr ''x'')])])])])
     ''articles'' False 0 = Inl (InvalidQuery (NotRelationalField ''authors'' ''bogus''))"
proof -
  let ?before = "[(''title'', JObj [(''_eq'', JStr ''y'')])]"
  let ?v = "JObj [(''bogus'', JObj [(''name'', JObj [(''_eq'', JStr ''x'')])])]"
  let ?st = "\<lparr>aliasMap = [(''author'', Nested [(''bogus'', Nested [(''name'', Alias ''aaaaa'')])])],
              joins = [LeftJoin ''aaaaa'' ''authors'' ''articles.author'' ''aaaaa.id''],
              drawn = 1\<rparr>"
  have path: "getFilterPath ''author'' ?v = Inr ([''author''] @ ''bogus'' # [''name''])"
    by simp
  have op: "getOperation ''author'' ?v = Inr (''_eq'', JStr ''x'')"
    by (simp add: getOperation.simps)
  have ty: "relationType_of demo_schema ''articles'' (pathRoot_of ''author'') \<noteq> Some O2M"
    by (simp add: demo_defs)
  have res: "resolve_path demo_schema ''articles'' [''author''] = Some ''authors''"
    by (simp add: demo_defs where_parent_def)
  have none: "find_relation demo_schema ''authors'' (pathRoot_of ''bogus'') = None"
    by (simp add: demo_defs)
  have joins: "addJoins demo_schema False demo_alias (JObj (?before @ (''author'', ?v) # []))
                 ''articles'' \<lparr>aliasMap = [], joins = [], drawn = 0\<rparr> = Inr ?st"
    by (simp add: demo_defs run_defs)
  have wh: "addWhereClauses_entries demo_schema demo_alias False (aliasMap ?st) ?before
              ''articles'' And (drawn ?st) =
            Inr (1, [Where And (GetColumn (Some ''articles'') (Some ''title'')) ''=''
                       (Val (JStr ''y''))])"
    by (simp add: demo_defs run_defs leaf_defs)
  from unresolved_segment_raises[OF _ _ path _ op ty res none joins wh, of "[]"]
  show ?thesis by (simp add: pathRoot_of_def)
qed

text \<open>
  Claim C8, as stated, fails where the predicate compiler hands the leaf to a callback
  of the builder: below a one-to-many hop at the top level and inside an \<^verbatim>\<open>_and\<close> or
  \<^verbatim>\<open>_or\<close> group \<^verbatim>\<open>applyFilter\<close> returns, and the exception waits in the callback
  until the builder runs it.
\<close>

theorem unresolved_segment_deferred:
  "applyFilter demo_schema demo_alias
     (JObj [(''articles'', JObj [(''bogus'', JObj [(''title'', JObj [(''_eq'', JStr ''x'')])])])])
     ''pages'' False 0 =
     Inr (1, [WhereInSubquery And ''pages.id''
                (Inl (InvalidQuery (NotRelationalField ''articles'' ''bogus'')))]) \<and>
   applyFilter demo_schema demo_alias
     (JObj [(''_and'', JArr [JObj [(''bogus'', JObj [(''title'', JObj [(''_eq'', JStr ''x'')])])]])])
     ''pages'' False 0 =
     Inr (0, [WhereWrapped And (Inl (InvalidQuery (NotRelationalField ''pages'' ''bogus'')))])"
  by (simp add: demo_defs run_defs)

subsection \<open>Aliases along a chain of many-to-one hops\<close>

lemma lodash_get_set_same:
  "p \<noteq> [] \<Longrightarrow> lodash_get (lodash_set am p a) p = Some (Alias a)"
  by (induction am p a rule: lodash_set.induct) (simp_all add: update_conv')

lemma lodash_get_set_other:
  "h \<noteq> h' \<Longrightarrow> lodash_get (lodash_set am (h' # ks') a) (h # ks) = lodash_get am (h # ks)"
  by (cases ks'; cases ks) (simp_all add: update_conv')

lemma join_key_head: "\<exists>ks. join_key pa (part # rest) = alias_or pa part # ks"
  by (simp add: join_key_def alias_or_def split: option.splits)

lemma where_key_join_key: "where_key (map_option Alias pa) path = join_key pa path"
  by (cases pa) (simp_all add: where_key_def join_key_def)

lemma m2o_hop_join:
  assumes "find_relation S parent (pathRoot_of part) = Some rel"
    and "getRelationType rel parent (pathRoot_of part) = Some M2O"
    and "related_collection rel = Some target"
    and "map_of (collections S) target = Some ov"
    and "rest \<noteq> []"
  shows "addJoin_followRelation S sub gen (part # rest) parent pa st =
     addJoin_followRelation S sub gen rest target (Some (gen (drawn st)))
       (st\<lparr>aliasMap := lodash_set (aliasMap st) (join_key pa (part # rest)) (gen (drawn st)),
           drawn := Suc (drawn st),
           joins := joins st @
             [LeftJoin (gen (drawn st)) target (alias_or pa parent @ ''.'' @ field rel)
                (gen (drawn st) @ ''.'' @ primary ov)]\<rparr>)"
  using assms
  by (simp add: addJoin_followRelation.simps[of _ _ _ part] Let_def join_m2o_def primary_of_def
        next_parent_def)

lemma column_hop_join:
  "find_relation S parent (pathRoot_of col) = None \<Longrightarrow>
     addJoin_followRelation S sub gen [col] parent pa st = Inr st"
  by (simp add: addJoin_followRelation.simps)

lemma join_walk_chain:
  assumes "m2o_chain S parent path"
    and "inj_on gen {drawn st ..< drawn st + (length path - 1)}"
    and "\<forall>i\<in>{drawn st ..< drawn st + (length path - 1)}. gen i \<noteq> []"
    and "alias_or pa (hd path) \<notin> gen ` {drawn st ..< drawn st + (length path - 1)}"
  shows "\<exists>st'. addJoin_followRelation S sub gen path parent pa st = Inr st' \<and>
           joins st' = joins st @ expected_joins S gen (alias_or pa parent) parent path (drawn st) \<and>
           drawn st' = drawn st + (length path - 1) \<and>
           recorded gen (aliasMap st') pa path (drawn st) \<and>
           (\<forall>h ks. h \<noteq> alias_or pa (hd path) \<longrightarrow>
                   h \<notin> gen ` {drawn st ..< drawn st + (length path - 1)} \<longrightarrow>
                   lodash_get (aliasMap st') (h # ks) = lodash_get (aliasMap st) (h # ks))"
  using assms
proof (induction path arbitrary: parent pa st)
  case Nil
  then show ?case by simp
next
  case (Cons part rest)
  show ?case
  proof (cases rest)
    case Nil
    with Cons.prems(1) show ?thesis by (simp add: column_hop_join)
  next
    case (Cons part2 rest2)
    let ?k = "drawn st"
    let ?h0 = "alias_or pa part"
    from Cons.prems(1) Cons obtain rel target ov where
      rel: "find_relation S parent (pathRoot_of part) = Some rel" and
      ty: "getRelationType rel parent (pathRoot_of part) = Some M2O" and
      tg: "related_collection rel = Some target" and
      ov: "map_of (collections S) target = Some ov" and
      ch: "m2o_chain S target rest"
      by (auto split: option.splits)
    define st1 where "st1 =
       st\<lparr>aliasMap := lodash_set (aliasMap st) (join_key pa (part # rest)) (gen ?k),
           drawn := Suc ?k,
           joins := joins st @
             [LeftJoin (gen ?k) target (alias_or pa parent @ ''.'' @ field rel)
                (gen ?k @ ''.'' @ primary ov)]\<rparr>"
    have rest_ne: "rest \<noteq> []" using Cons by simp
    have step: "addJoin_followRelation S sub gen (part # rest) parent pa st =
                addJoin_followRelation S sub gen rest target (Some (gen ?k)) st1"
      unfolding st1_def by (rule m2o_hop_join[OF rel ty tg ov rest_ne])
    have len: "length (part # rest) - 1 = Suc (length rest - 1)" using Cons by simp
    have range: "{?k ..< ?k + (length (part # rest) - 1)} =
                 insert ?k {Suc ?k ..< Suc ?k + (length rest - 1)}"
      unfolding len by auto
    have d1: "drawn st1 = Suc ?k" by (simp add: st1_def)
    have gk: "gen ?k \<noteq> []" using Cons.prems(3) unfolding range by simp
    have a1: "alias_or (Some (gen ?k)) x = gen ?k" for x
      using gk by (simp add: alias_or_def)
    have inj1: "inj_on gen {drawn st1 ..< drawn st1 + (length rest - 1)}"
      using Cons.prems(2) unfolding range d1 by (rule inj_on_subset) auto
    have ne1: "\<forall>i\<in>{drawn st1 ..< drawn st1 + (length rest - 1)}. gen i \<noteq> []"
      using Cons.prems(3) unfolding range d1 by simp
    have fresh1: "gen ?k \<notin> gen ` {drawn st1 ..< drawn st1 + (length rest - 1)}"
      using Cons.prems(2) unfolding range d1 by (auto simp: inj_on_def)
    from Cons.IH[OF ch inj1 ne1, of "Some (gen ?k)"] fresh1
    obtain st' where
      run: "addJoin_followRelation S sub gen rest target (Some (gen ?k)) st1 = Inr st'" and
      js: "joins st' = joins st1 @ expected_joins S gen (gen ?k) target rest (drawn st1)" and
      dr: "drawn st' = drawn st1 + (length rest - 1)" and
      rc: "recorded gen (aliasMap st') (Some (gen ?k)) rest (drawn st1)" and
      fr: "\<And>h ks. h \<noteq> gen ?k \<Longrightarrow>
                h \<notin> gen ` {drawn st1 ..< drawn st1 + (length rest - 1)} \<Longrightarrow>
                lodash_get (aliasMap st') (h # ks) = lodash_get (aliasMap st1) (h # ks)"
      by (auto simp: a1)
    obtain ks0 where key0: "join_key pa (part # rest) = ?h0 # ks0"
      using join_key_head by blast
    have h0: "?h0 \<noteq> gen ?k" "?h0 \<notin> gen ` {drawn st1 ..< drawn st1 + (length rest - 1)}"
      using Cons.prems(4) unfolding range d1 by auto
    have look0: "lodash_get (aliasMap st') (join_key pa (part # rest)) = Some (Alias (gen ?k))"
      unfolding key0 fr[OF h0]
      by (simp add: st1_def key0 lodash_get_set_same)
    have frame: "lodash_get (aliasMap st') (h # ks) = lodash_get (aliasMap st) (h # ks)"
      if "h \<noteq> ?h0" "h \<notin> gen ` {?k ..< ?k + (length (part # rest) - 1)}" for h ks
    proof -
      from that(2) have "h \<noteq> gen ?k"
        "h \<notin> gen ` {drawn st1 ..< drawn st1 + (length rest - 1)}"
        unfolding range d1 by auto
      from fr[OF this] that(1) show ?thesis
        by (simp add: st1_def key0 lodash_get_set_other)
    qed
    have ej: "expected_joins S gen nm parent (part # rest) k =
          LeftJoin (gen k) target (nm @ ''.'' @ field rel) (gen k @ ''.'' @ primary ov) #
          expected_joins S gen (gen k) target rest (Suc k)" for nm k
      unfolding Cons by (simp add: rel tg ov)
    have "joins st' =
          joins st @ expected_joins S gen (alias_or pa parent) parent (part # rest) ?k"
      unfolding js ej by (simp add: st1_def)
    moreover have "drawn st' = ?k + (length (part # rest) - 1)"
      unfolding dr d1 len by simp
    moreover have "recorded gen (aliasMap st') pa (part # rest) ?k"
      using look0 rc unfolding Cons d1 by simp
    ultimately show ?thesis
      unfolding step run using frame by simp
  qed
qed

lemma where_walk_chain:
  assumes "m2o_chain S parent path" and "length path \<ge> 2"
    and "recorded gen am pa path k"
    and "\<forall>i\<in>{k ..< k + (length path - 1)}. gen i \<noteq> []"
  shows "getWhereColumn_followRelation S am path parent (map_option Alias pa) =
           Inr (Some (gen (k + (length path - 2)) @ ''.'' @ last path))"
  using assms
proof (induction path arbitrary: parent pa k)
  case Nil
  then show ?case by simp
next
  case (Cons part rest)
  from Cons.prems(2) obtain part2 rest2 where rest: "rest = part2 # rest2"
    by (cases rest) auto
  from Cons.prems(1) rest obtain rel target where
    rel: "find_relation S parent (pathRoot_of part) = Some rel" and
    ty: "getRelationType rel parent (pathRoot_of part) = Some M2O" and
    tg: "related_collection rel = Some target" and
    ch: "m2o_chain S target rest"
    by (auto split: option.splits)
  from Cons.prems(3) rest have
    look: "lodash_get am (join_key pa (part # rest)) = Some (Alias (gen k))" and
    rc: "recorded gen am (Some (gen k)) rest (Suc k)"
    by simp_all
  from Cons.prems(4) rest have gk: "gen k \<noteq> []" by simp
  have wp: "where_parent rel (Some M2O) (pathScope_of part) = Inr target"
    by (simp add: where_parent_def tg)
  show ?case
  proof (cases rest2)
    case Nil
    show ?thesis
      unfolding rest Nil
      using look gk
      by (simp add: getWhereColumn_followRelation.simps rel ty wp where_key_join_key rest Nil Let_def)
  next
    case (Cons part3 rest3)
    have len: "length rest \<ge> 2" using rest Cons by simp
    have ne: "\<forall>i\<in>{Suc k ..< Suc k + (length rest - 1)}. gen i \<noteq> []"
      using Cons.prems(4) rest by simp
    have "getWhereColumn_followRelation S am (part # rest) parent (map_option Alias pa) =
          getWhereColumn_followRelation S am rest target (map_option Alias (Some (gen k)))"
      using look
      by (simp add: getWhereColumn_followRelation.simps[of _ _ part] rel ty wp
            where_key_join_key rest Cons Let_def)
    also have "\<dots> = Inr (Some (gen (Suc k + (length rest - 2)) @ ''.'' @ last rest))"
      by (rule Cons.IH[OF ch len rc ne])
    finally show ?thesis using rest Cons by simp
  qed
qed

lemma expected_joins_chain:
  assumes "m2o_chain S parent path" and "length path \<ge> 2"
  shows "length (expected_joins S gen nm parent path k) = length path - 1 \<and>
         (\<forall>c\<in>set (expected_joins S gen nm parent path k). is_join c) \<and>
         (\<exists>table first second.
            last (expected_joins S gen nm parent path k) =
              LeftJoin (gen (k + (length path - 2))) table first second)"
  using assms
proof (induction path arbitrary: parent nm k)
  case Nil
  then show ?case by simp
next
  case (Cons part rest)
  from Cons.prems(2) obtain part2 rest2 where rest: "rest = part2 # rest2"
    by (cases rest) auto
  from Cons.prems(1) rest obtain rel target ov where
    rel: "find_relation S parent (pathRoot_of part) = Some rel" and
    tg: "related_collection rel = Some target" and
    ov: "map_of (collections S) target = Some ov" and
    ch: "m2o_chain S target rest"
    by (auto split: option.splits)
  have ej: "expected_joins S gen nm parent (part # rest) k =
          LeftJoin (gen k) target (nm @ ''.'' @ field rel) (gen k @ ''.'' @ primary ov) #
          expected_joins S gen (gen k) target rest (Suc k)"
    unfolding rest by (simp add: rel tg ov)
  show ?case
  proof (cases rest2)
    case Nil
    then show ?thesis unfolding ej by (simp add: rest)
  next
    case (Cons part3 rest3)
    have len: "length rest \<ge> 2" using rest Cons by simp
    from Cons.IH[OF ch len, of "gen k" "Suc k"] show ?thesis
      unfolding ej using rest Cons by auto
  qed
qed

lemma filter_joins_append:
  assumes "\<forall>c\<in>set js. is_join c" and "builds_predicates cs"
  shows "filter is_join (js @ cs) = js"
proof -
  from assms(2) have "filter is_join cs = []"
    by (auto simp: builds_predicates_def filter_empty_conv)
  with assms(1) show ?thesis by simp
qed

lemma lodash_get_empty: "lodash_get [] q = None"
  by (cases q; cases "tl q") auto

lemma lodash_get_set_diverge:
  "x \<noteq> y \<Longrightarrow>
     lodash_get (lodash_set obj (c @ x # p') a) (c @ y # q') = lodash_get obj (c @ y # q')"
proof (induction c arbitrary: obj)
  case Nil
  then show ?case by (simp add: lodash_get_set_other)
next
  case (Cons k c)
  obtain k1 ks1 where set_tl: "c @ x # p' = k1 # ks1" by (cases "c @ x # p'") auto
  obtain k2 ks2 where get_tl: "c @ y # q' = k2 # ks2" by (cases "c @ y # q'") auto
  let ?child = "case map_of obj k of Some (Nested child) \<Rightarrow> child | _ \<Rightarrow> []"
  have "lodash_get (lodash_set obj ((k # c) @ x # p') a) ((k # c) @ y # q') =
        lodash_get (lodash_set ?child (c @ x # p') a) (c @ y # q')"
    by (simp add: set_tl get_tl update_conv')
  also have "\<dots> = lodash_get ?child (c @ y # q')"
    by (rule Cons.IH[OF Cons.prems])
  also have "\<dots> = lodash_get obj ((k # c) @ y # q')"
    by (simp add: get_tl lodash_get_empty split: option.splits alias_value.splits)
  finally show ?case .
qed

lemma chain_diverge:
  assumes "m2o_chain S parent p" and "m2o_chain S parent q" and "p \<noteq> q"
  shows "\<exists>c x p' y q'. p = c @ x # p' \<and> q = c @ y # q' \<and> x \<noteq> y"
  using assms
proof (induction p arbitrary: parent q)
  case Nil
  then show ?case by simp
next
  case (Cons part rest)
  from Cons.prems(2) obtain part2 rest2 where q: "q = part2 # rest2"
    by (cases q) auto
  show ?case
  proof (cases "part = part2")
    case False
    then have "part # rest = [] @ part # rest \<and> q = [] @ part2 # rest2 \<and> part \<noteq> part2"
      using q by simp
    then show ?thesis by blast
  next
    case True
    with Cons.prems(3) q have ne: "rest \<noteq> rest2" by simp
    have both: "rest \<noteq> [] \<and> rest2 \<noteq> []"
    proof (cases rest)
      case Nil
      with ne obtain a b where "rest2 = a # b" by (cases rest2) auto
      with Cons.prems(1,2) Nil q True show ?thesis
        by (auto split: option.splits)
    next
      case (Cons a b)
      show ?thesis
      proof (cases rest2)
        case Nil
        with Cons.prems Cons q True \<open>rest = a # b\<close> show ?thesis
          by (auto split: option.splits)
      next
        case (Cons a2 b2)
        with \<open>rest = a # b\<close> show ?thesis by simp
      qed
    qed
    then obtain a b a2 b2 where r: "rest = a # b" and r2: "rest2 = a2 # b2"
      by (cases rest; cases rest2) auto
    from Cons.prems(1) r obtain rel target where
      rel: "find_relation S parent (pathRoot_of part) = Some rel" and
      tg: "related_collection rel = Some target" and
      ch: "m2o_chain S target rest"
      by (auto split: option.splits)
    from Cons.prems(2) q r2 True rel tg have ch2: "m2o_chain S target rest2"
      by (auto split: option.splits)
    from Cons.IH[OF ch ch2 ne] obtain c x p' y q' where
      "rest = c @ x # p'" "rest2 = c @ y # q'" "x \<noteq> y"
      by blast
    then have "part # rest = (part # c) @ x # p' \<and> q = (part # c) @ y # q' \<and> x \<noteq> y"
      using q True by simp
    then show ?thesis by blast
  qed
qed

lemma recorded_cong:
  assumes "recorded gen am pa p k"
    and "\<forall>i\<in>{k ..< k + (length p - 1)}. gen i \<noteq> []"
    and "lodash_get am' (join_key pa p) = lodash_get am (join_key pa p)"
    and "\<forall>h ks. h \<in> gen ` {k ..< k + (length p - 1)} \<longrightarrow>
           lodash_get am' (h # ks) = lodash_get am (h # ks)"
  shows "recorded gen am' pa p k"
  using assms
proof (induction p arbitrary: pa k)
  case Nil
  then show ?case by simp
next
  case (Cons part rest)
  show ?case
  proof (cases rest)
    case Nil
    then show ?thesis by simp
  next
    case (Cons part2 rest2)
    have len: "length (part # rest) - 1 = Suc (length rest - 1)" using Cons by simp
    have range: "{k ..< k + (length (part # rest) - 1)} =
                 insert k {Suc k ..< Suc k + (length rest - 1)}"
      unfolding len by auto
    from Cons.prems(1) Cons have
      look: "lodash_get am (join_key pa (part # rest)) = Some (Alias (gen k))" and
      rc: "recorded gen am (Some (gen k)) rest (Suc k)"
      by simp_all
    from Cons.prems(2) have gk: "gen k \<noteq> []" unfolding range by simp
    have key1: "join_key (Some (gen k)) rest = gen k # rest"
      using gk by (simp add: join_key_def)
    have "recorded gen am' (Some (gen k)) rest (Suc k)"
    proof (rule Cons.IH[OF rc])
      show "\<forall>i\<in>{Suc k ..< Suc k + (length rest - 1)}. gen i \<noteq> []"
        using Cons.prems(2) unfolding range by simp
      show "lodash_get am' (join_key (Some (gen k)) rest) =
            lodash_get am (join_key (Some (gen k)) rest)"
        unfolding key1 using Cons.prems(4) unfolding range by simp
      show "\<forall>h ks. h \<in> gen ` {Suc k ..< Suc k + (length rest - 1)} \<longrightarrow>
              lodash_get am' (h # ks) = lodash_get am (h # ks)"
        using Cons.prems(4) unfolding range by simp
    qed
    with look Cons.prems(3) show ?thesis unfolding Cons by simp
  qed
qed

lemma join_walk_other_path:
  assumes "m2o_chain S parent path" and "length path \<ge> 2"
    and "inj_on gen {drawn st ..< drawn st + (length path - 1)}"
    and "\<forall>i\<in>{drawn st ..< drawn st + (length path - 1)}. gen i \<noteq> []"
    and "addJoin_followRelation S sub gen path parent None st = Inr st'"
    and "path = c @ x # p'" and "x \<noteq> y"
    and "hd (c @ y # q') \<notin> gen ` {drawn st ..< drawn st + (length path - 1)}"
  shows "lodash_get (aliasMap st') (c @ y # q') = lodash_get (aliasMap st) (c @ y # q')"
proof -
  let ?k = "drawn st"
  from assms(2) obtain part part2 rest2 where path: "path = part # part2 # rest2"
    by (cases path; cases "tl path") auto
  let ?rest = "part2 # rest2"
  from assms(1) path obtain rel target ov where
    rel: "find_relation S parent (pathRoot_of part) = Some rel" and
    ty: "getRelationType rel parent (pathRoot_of part) = Some M2O" and
    tg: "related_collection rel = Some target" and
    ov: "map_of (collections S) target = Some ov" and
    ch: "m2o_chain S target ?rest"
    by (auto split: option.splits)
  define st1 where "st1 =
     st\<lparr>aliasMap := lodash_set (aliasMap st) (join_key None (part # ?rest)) (gen ?k),
         drawn := Suc ?k,
         joins := joins st @
           [LeftJoin (gen ?k) target (alias_or None parent @ ''.'' @ field rel)
              (gen ?k @ ''.'' @ primary ov)]\<rparr>"
  have step: "addJoin_followRelation S sub gen (part # ?rest) parent None st =
              addJoin_followRelation S sub gen ?rest target (Some (gen ?k)) st1"
    unfolding st1_def by (rule m2o_hop_join[OF rel ty tg ov]) simp
  have len: "length path - 1 = Suc (length ?rest - 1)" using path by simp
  have range: "{?k ..< ?k + (length path - 1)} =
               insert ?k {Suc ?k ..< Suc ?k + (length ?rest - 1)}"
    unfolding len by auto
  have d1: "drawn st1 = Suc ?k" by (simp add: st1_def)
  have gk: "gen ?k \<noteq> []" using assms(4) unfolding range by simp
  have a1: "alias_or (Some (gen ?k)) z = gen ?k" for z
    using gk by (simp add: alias_or_def)
  have inj1: "inj_on gen {drawn st1 ..< drawn st1 + (length ?rest - 1)}"
    using assms(3) unfolding range d1 by (rule inj_on_subset) auto
  have ne1: "\<forall>i\<in>{drawn st1 ..< drawn st1 + (length ?rest - 1)}. gen i \<noteq> []"
    using assms(4) unfolding range d1 by simp
  have fresh1: "alias_or (Some (gen ?k)) (hd ?rest) \<notin>
                  gen ` {drawn st1 ..< drawn st1 + (length ?rest - 1)}"
    unfolding a1 using assms(3) unfolding range d1 by (auto simp: inj_on_def)
  from join_walk_chain[OF ch inj1 ne1 fresh1, of sub] obtain st2 where
    run: "addJoin_followRelation S sub gen ?rest target (Some (gen ?k)) st1 = Inr st2" and
    fr: "\<And>h ks. h \<noteq> gen ?k \<Longrightarrow>
              h \<notin> gen ` {drawn st1 ..< drawn st1 + (length ?rest - 1)} \<Longrightarrow>
              lodash_get (aliasMap st2) (h # ks) = lodash_get (aliasMap st1) (h # ks)"
    unfolding a1 by blast
  from assms(5) step run have st': "st' = st2" unfolding path by simp
  obtain h ks where q: "c @ y # q' = h # ks" by (cases "c @ y # q'") auto
  from assms(8) have h: "h \<noteq> gen ?k"
    "h \<notin> gen ` {drawn st1 ..< drawn st1 + (length ?rest - 1)}"
    unfolding q range d1 by auto
  have "lodash_get (aliasMap st') (c @ y # q') = lodash_get (aliasMap st1) (c @ y # q')"
    unfolding st' q by (rule fr[OF h])
  also have "\<dots> = lodash_get (lodash_set (aliasMap st) (c @ x # p') (gen ?k)) (c @ y # q')"
    using assms(6) path by (simp add: st1_def join_key_def)
  also have "\<dots> = lodash_get (aliasMap st) (c @ y # q')"
    by (rule lodash_get_set_diverge[OF assms(7)])
  finally show ?thesis .
qed

lemma all_draws: "(\<forall>i\<in>{a ..< a + (L::nat)}. P i) = (\<forall>d < L. P (a + d))"
proof (intro iffI allI impI ballI)
  fix d
  assume "\<forall>i\<in>{a ..< a + L}. P i" "d < L"
  then show "P (a + d)" by simp
next
  fix i
  assume h: "\<forall>d < L. P (a + d)" and "i \<in> {a ..< a + L}"
  then have "i - a < L" "i = a + (i - a)" by auto
  with h show "P i" by metis
qed

lemma notin_draws:
  "(x \<notin> gen ` {a ..< a + (L::nat)}) = (\<forall>d < L. x \<noteq> gen (a + d))"
proof -
  have "(x \<notin> gen ` {a ..< a + L}) = (\<forall>i\<in>{a ..< a + L}. x \<noteq> gen i)"
    by auto
  also have "\<dots> = (\<forall>d < L. x \<noteq> gen (a + d))"
    by (rule all_draws)
  finally show ?thesis .
qed

text \<open>
  Claim C2, as amended. Take a leaf whose path has more than one segment, made of
  many-to-one hops and a final column, and draws that are non-empty, distinct and differ
  from the first segment.
  \<^item> For a filter with this one leaf \<^verbatim>\<open>applyFilter\<close> puts on the builder one
    \<^verbatim>\<open>leftJoin\<close> per hop, each under its own freshly drawn alias and as the spec words
    it, and then the calls of the leaf's operator on the final column of the alias drawn
    at the last hop.
  \<^item> From whatever state the join planner comes to the leaf, it adds these joins for
    it, under the next draws, and records the draws in the alias map under the path of
    the leaf; the record of another such path stays as it is when the draws of the two
    walks differ from each other and from the first segments.
  \<^item> On an alias map that holds the record of a walk along the path of the leaf, the
    predicate compiler compiles the leaf's operator on the final column of the alias
    drawn at the last hop of that walk.
\<close>

theorem many_to_one_chain_joins:
  assumes "key \<noteq> ''_or''" and "key \<noteq> ''_and''"
    and "getFilterPath key v = Inr path" and "length path > 1"
    and "getOperation key v = Inr (operator, compareValue)"
    and "m2o_chain S coll path"
    and "\<forall>i < length path - 1. gen (n + i) \<noteq> [] \<and> gen (n + i) \<noteq> key"
    and "\<forall>i < length path - 1. \<forall>j < length path - 1. gen (n + i) = gen (n + j) \<longrightarrow> i = j"
  shows "applyFilter S gen (JObj [(key, v)]) coll sub n =
           (case applyFilterToQuery (gen (n + (length path - 2)) @ ''.'' @ last path)
                   operator compareValue And of
              Inl e \<Rightarrow> Inl e
            | Inr calls \<Rightarrow>
                Inr (n + (length path - 1), expected_joins S gen coll coll path n @ calls)) \<and>
         length (expected_joins S gen coll coll path n) = length path - 1 \<and>
         (\<exists>table first second.
            last (expected_joins S gen coll coll path n) =
              LeftJoin (gen (n + (length path - 2))) table first second) \<and>
         (\<forall>n' calls. applyFilter S gen (JObj [(key, v)]) coll sub n = Inr (n', calls)
            \<longrightarrow> length (filter is_join calls) = length path - 1) \<and>
         (drawn st = n \<longrightarrow>
            (\<exists>st'. addJoins_entry S sub gen key v coll st = Inr st' \<and>
               joins st' = joins st @ expected_joins S gen coll coll path n \<and>
               drawn st' = n + (length path - 1) \<and>
               recorded gen (aliasMap st') None path n \<and>
               (\<forall>other k.
                  m2o_chain S coll other \<and> other \<noteq> path \<and>
                  recorded gen (aliasMap st) None other k \<and>
                  (\<forall>j < length other - 1. gen (k + j) \<noteq> [] \<and> gen (k + j) \<noteq> key \<and>
                     (\<forall>i < length path - 1. gen (k + j) \<noteq> gen (n + i))) \<and>
                  (\<forall>i < length path - 1. gen (n + i) \<noteq> hd other)
                    \<longrightarrow> recorded gen (aliasMap st') None other k))) \<and>
         (recorded gen am None path k \<and> (\<forall>i < length path - 1. gen (k + i) \<noteq> [])
            \<longrightarrow> addWhereClauses_entry S gen sub am key v coll lg m =
                  leaf_result m
                    (applyFilterToQuery (gen (k + (length path - 2)) @ ''.'' @ last path)
                       operator compareValue lg))"
proof -
  let ?L = "length path - 1"
  let ?js = "expected_joins S gen coll coll path n"
  from getFilterPath_head[OF assms(3)] obtain rest where path: "path = key # rest" by blast
  from assms(4) have len2: "length path \<ge> 2" by simp
  have range: "i \<in> {a ..< a + ?L} \<longleftrightarrow> (\<exists>d < ?L. i = a + d)" for i a
    by (auto intro: exI[of _ "i - a"])
  from assms(6) len2 have ty: "relationType_of S coll (pathRoot_of key) = Some M2O"
    unfolding path by (cases rest) (auto simp: relationType_of_def split: option.splits)
  have compile: "addWhereClauses_entry S gen sub am key v coll lg m =
           leaf_result m
             (applyFilterToQuery (gen (k + (length path - 2)) @ ''.'' @ last path)
                operator compareValue lg)"
    if rc: "recorded gen am None path k" and ne: "\<forall>i < ?L. gen (k + i) \<noteq> []"
    for am k lg m
  proof -
    let ?col = "gen (k + (length path - 2)) @ ''.'' @ last path"
    from ne have ne': "\<forall>i\<in>{k ..< k + ?L}. gen i \<noteq> []"
      unfolding all_draws .
    have w: "getWhereColumn S am path coll = Inr (Some ?col)"
      unfolding getWhereColumn_def
      using where_walk_chain[OF assms(6) len2 rc ne'] by simp
    have c: "column_predicate S am path key coll operator compareValue lg m =
             leaf_result m (applyFilterToQuery ?col operator compareValue lg)"
      using assms(4) by (simp add: column_predicate_def w)
    show ?thesis
      using assms(1,2)
      by (subst addWhereClauses_entry.simps)
         (simp add: assms(3,5) ty c[unfolded path] path Let_def)
  qed
  have plan: "\<exists>st'. addJoins_entry S sub gen key v coll st = Inr st' \<and>
               joins st' = joins st @ ?js \<and>
               drawn st' = n + ?L \<and>
               recorded gen (aliasMap st') None path n \<and>
               (\<forall>other k.
                  m2o_chain S coll other \<and> other \<noteq> path \<and>
                  recorded gen (aliasMap st) None other k \<and>
                  (\<forall>j < length other - 1. gen (k + j) \<noteq> [] \<and> gen (k + j) \<noteq> key \<and>
                     (\<forall>i < ?L. gen (k + j) \<noteq> gen (n + i))) \<and>
                  (\<forall>i < ?L. gen (n + i) \<noteq> hd other)
                    \<longrightarrow> recorded gen (aliasMap st') None other k)"
    if d: "drawn st = n" for st :: join_state
  proof -
    have inj: "inj_on gen {drawn st ..< drawn st + ?L}"
    proof (rule inj_onI)
      fix x y
      assume "x \<in> {drawn st ..< drawn st + ?L}" "y \<in> {drawn st ..< drawn st + ?L}"
        and eq: "gen x = gen y"
      then obtain i j where ij: "i < ?L" "x = n + i" "j < ?L" "y = n + j"
        using range[of x n] range[of y n] d by auto
      with assms(8) eq have "i = j" by blast
      with ij show "x = y" by simp
    qed
    have ne_key: "gen i \<noteq> [] \<and> gen i \<noteq> key" if "i \<in> {n ..< n + ?L}" for i
      using assms(7) range[of i n] that by blast
    have ne: "\<forall>i\<in>{drawn st ..< drawn st + ?L}. gen i \<noteq> []"
      using ne_key d by simp
    have fresh: "alias_or None (hd path) \<notin> gen ` {drawn st ..< drawn st + ?L}"
    proof
      assume "alias_or None (hd path) \<in> gen ` {drawn st ..< drawn st + ?L}"
      then obtain i where "i \<in> {n ..< n + ?L}" "key = gen i"
        unfolding path d by (auto simp: alias_or_def)
      with ne_key[of i] show False by simp
    qed
    from join_walk_chain[OF assms(6) inj ne fresh, of sub] obtain st' where
      run: "addJoin_followRelation S sub gen path coll None st = Inr st'" and
      js: "joins st' = joins st @ ?js" and
      dr: "drawn st' = n + ?L" and
      rc: "recorded gen (aliasMap st') None path n" and
      fr: "\<And>h ks. h \<noteq> key \<Longrightarrow> h \<notin> gen ` {n ..< n + ?L} \<Longrightarrow>
              lodash_get (aliasMap st') (h # ks) = lodash_get (aliasMap st) (h # ks)"
      unfolding d path by (auto simp: alias_or_def)
    have j: "addJoins_entry S sub gen key v coll st = Inr st'"
      using assms(1,2,3,4) run by (simp add: addJoins_entry.simps addJoin_def)
    have keep: "recorded gen (aliasMap st') None other k"
      if o: "m2o_chain S coll other" "other \<noteq> path"
        "recorded gen (aliasMap st) None other k"
        and old: "\<forall>j < length other - 1. gen (k + j) \<noteq> [] \<and> gen (k + j) \<noteq> key \<and>
                     (\<forall>i < ?L. gen (k + j) \<noteq> gen (n + i))"
        and new: "\<forall>i < ?L. gen (n + i) \<noteq> hd other"
      for other k
    proof (rule recorded_cong[OF o(3)])
      have r: "i \<in> {k ..< k + (length other - 1)} \<longleftrightarrow> (\<exists>d < length other - 1. i = k + d)"
        for i
        by (auto intro: exI[of _ "i - k"])
      show "\<forall>i\<in>{k ..< k + (length other - 1)}. gen i \<noteq> []"
        unfolding all_draws using old by simp
      from chain_diverge[OF assms(6) o(1)] o(2) obtain c x p' y q' where
        dv: "path = c @ x # p'" "other = c @ y # q'" "x \<noteq> y"
        by blast
      have "hd other \<notin> gen ` {drawn st ..< drawn st + ?L}"
        unfolding d notin_draws using new by metis
      then have "lodash_get (aliasMap st') other = lodash_get (aliasMap st) other"
        unfolding dv(2)
        by (intro join_walk_other_path[OF assms(6) len2 inj ne run dv(1) dv(3)])
      then show "lodash_get (aliasMap st') (join_key None other) =
                 lodash_get (aliasMap st) (join_key None other)"
        by (simp add: join_key_def)
      show "\<forall>h ks. h \<in> gen ` {k ..< k + (length other - 1)} \<longrightarrow>
              lodash_get (aliasMap st') (h # ks) = lodash_get (aliasMap st) (h # ks)"
      proof (intro allI impI)
        fix h ks
        assume "h \<in> gen ` {k ..< k + (length other - 1)}"
        then obtain j where jj: "j < length other - 1" "h = gen (k + j)"
          using r by auto
        with old have "h \<noteq> key" "\<forall>i < ?L. h \<noteq> gen (n + i)"
          by simp_all
        then have "h \<noteq> key" "h \<notin> gen ` {n ..< n + ?L}"
          unfolding notin_draws by simp_all
        then show "lodash_get (aliasMap st') (h # ks) = lodash_get (aliasMap st) (h # ks)"
          by (rule fr)
      qed
    qed
    from j js dr rc keep show ?thesis by blast
  qed
  let ?st0 = "\<lparr>aliasMap = [], joins = [], drawn = n\<rparr>"
  let ?col = "gen (n + (length path - 2)) @ ''.'' @ last path"
  from plan[of ?st0] obtain st' where
    j: "addJoins_entry S sub gen key v coll ?st0 = Inr st'" and
    js: "joins st' = ?js" and
    dr: "drawn st' = n + ?L" and
    rc: "recorded gen (aliasMap st') None path n"
    by auto
  from assms(7) have ne0: "\<forall>i < ?L. gen (n + i) \<noteq> []" by simp
  have e: "addWhereClauses_entry S gen sub (aliasMap st') key v coll And (drawn st') =
           leaf_result (n + ?L) (applyFilterToQuery ?col operator compareValue And)"
    unfolding dr by (rule compile[OF rc ne0])
  have main: "applyFilter S gen (JObj [(key, v)]) coll sub n =
           (case applyFilterToQuery ?col operator compareValue And of
              Inl e \<Rightarrow> Inl e
            | Inr calls \<Rightarrow> Inr (n + ?L, ?js @ calls))"
    by (simp add: applyFilter.simps j e js leaf_result_def split: sum.splits)
  note ej = expected_joins_chain[OF assms(6) len2, of gen coll n]
  have count: "\<forall>n' calls. applyFilter S gen (JObj [(key, v)]) coll sub n = Inr (n', calls)
            \<longrightarrow> length (filter is_join calls) = ?L"
  proof (intro allI impI)
    fix n' calls
    assume "applyFilter S gen (JObj [(key, v)]) coll sub n = Inr (n', calls)"
    then obtain cs where cs: "applyFilterToQuery ?col operator compareValue And = Inr cs"
      and calls: "calls = ?js @ cs"
      unfolding main by (auto split: sum.splits)
    from ej have allj: "\<forall>c\<in>set ?js. is_join c" and l: "length ?js = ?L"
      by simp_all
    show "length (filter is_join calls) = ?L"
      unfolding calls filter_joins_append[OF allj applyFilterToQuery_calls[OF cs]]
      by (rule l)
  qed
  from ej have l: "length ?js = ?L"
    and la: "\<exists>table first second.
               last ?js = LeftJoin (gen (n + (length path - 2))) table first second"
    by simp_all
  have a: "drawn st = n \<longrightarrow>
            (\<exists>st'. addJoins_entry S sub gen key v coll st = Inr st' \<and>
               joins st' = joins st @ ?js \<and>
               drawn st' = n + ?L \<and>
               recorded gen (aliasMap st') None path n \<and>
               (\<forall>other k.
                  m2o_chain S coll other \<and> other \<noteq> path \<and>
                  recorded gen (aliasMap st) None other k \<and>
                  (\<forall>j < length other - 1. gen (k + j) \<noteq> [] \<and> gen (k + j) \<noteq> key \<and>
                     (\<forall>i < ?L. gen (k + j) \<noteq> gen (n + i))) \<and>
                  (\<forall>i < ?L. gen (n + i) \<noteq> hd other)
                    \<longrightarrow> recorded gen (aliasMap st') None other k))"
    using plan by blast
  have c: "recorded gen am None path k \<and> (\<forall>i < ?L. gen (k + i) \<noteq> [])
            \<longrightarrow> addWhereClauses_entry S gen sub am key v coll lg m =
                  leaf_result m
                    (applyFilterToQuery (gen (k + (length path - 2)) @ ''.'' @ last path)
                       operator compareValue lg)"
    using compile by blast
  show ?thesis
    by (intro conjI; (fact main l la count a c))
qed

theorem many_to_one_chain_joins_witness:
  "applyFilter demo_schema demo_alias
     (JObj [(''author'', JObj [(''country'', JObj [(''code'', JObj [(''_eq'', JStr ''x'')])])])])
     ''articles'' False 0 =
   Inr (2, [LeftJoin ''aaaaa'' ''authors'' ''articles.author'' ''aaaaa.id'',
            LeftJoin ''bbbbb'' ''countries'' ''aaaaa.country'' ''bbbbb.code'',
            Where And (GetColumn (Some ''bbbbb'') (Some ''code'')) ''='' (Val (JStr ''x''))]) \<and>
   addJoins_entry demo_schema False demo_alias ''author''
     (JObj [(''country'', JObj [(''code'', JObj [(''_eq'', JStr ''x'')])])]) ''articles''
     \<lparr>aliasMap = [(''author'', Nested [(''name'', Alias ''aaaaa'')])],
      joins = [LeftJoin ''aaaaa'' ''authors'' ''articles.author'' ''aaaaa.id''],
      drawn = 1\<rparr> =
   Inr \<lparr>aliasMap =
          [(''author'', Nested [(''name'', Alias ''aaaaa''),
                                (''country'', Nested [(''code'', Alias ''bbbbb'')])]),
           (''bbbbb'', Nested [(''country'', Nested [(''code'', Alias ''ccccc'')])])],
        joins = [LeftJoin ''aaaaa'' ''authors'' ''articles.author'' ''aaaaa.id'',
                 LeftJoin ''bbbbb'' ''authors'' ''articles.author'' ''bbbbb.id'',
                 LeftJoin ''ccccc'' ''countries'' ''bbbbb.country'' ''ccccc.code''],
        drawn = 3\<rparr> \<and>
   recorded demo_alias
     [(''author'', Nested [(''name'', Alias ''aaaaa''),
                           (''country'', Nested [(''code'', Alias ''bbbbb'')])]),
      (''bbbbb'', Nested [(''country'', Nested [(''code'', Alias ''ccccc'')])])]
     None [''author'', ''name''] 0 \<and>
   addWhereClauses_entry demo_schema demo_alias False
     [(''author'', Nested [(''name'', Alias ''aaaaa''),
                           (''country'', Nested [(''code'', Alias ''bbbbb'')])]),
      (''bbbbb'', Nested [(''country'', Nested [(''code'', Alias ''ccccc'')])])]
     ''author'' (JObj [(''country'', JObj [(''code'', JObj [(''_eq'', JStr ''x'')])])])
     ''articles'' Or 7 =
   Inr (7, [Where Or (GetColumn (Some ''ccccc'') (Some ''code'')) ''='' (Val (JStr ''x''))])"
proof -
  let ?v = "JObj [(''country'', JObj [(''code'', JObj [(''_eq'', JStr ''x'')])])]"
  let ?path = "[''author'', ''country'', ''code'']"
  let ?other = "[''author'', ''name'']"
  let ?st = "\<lparr>aliasMap = [(''author'', Nested [(''name'', Alias ''aaaaa'')])],
      joins = [LeftJoin ''aaaaa'' ''authors'' ''articles.author'' ''aaaaa.id''],
      drawn = 1\<rparr>"
  let ?am = "[(''author'', Nested [(''name'', Alias ''aaaaa''),
                           (''country'', Nested [(''code'', Alias ''bbbbb'')])]),
      (''bbbbb'', Nested [(''country'', Nested [(''code'', Alias ''ccccc'')])])]"
  let ?fin = "\<lparr>aliasMap = ?am,
        joins = [LeftJoin ''aaaaa'' ''authors'' ''articles.author'' ''aaaaa.id'',
                 LeftJoin ''bbbbb'' ''authors'' ''articles.author'' ''bbbbb.id'',
                 LeftJoin ''ccccc'' ''countries'' ''bbbbb.country'' ''ccccc.code''],
        drawn = 3\<rparr>"
  have p: "getFilterPath ''author'' ?v = Inr ?path" by simp
  have o: "getOperation ''author'' ?v = Inr (''_eq'', JStr ''x'')"
    by (simp add: getOperation.simps)
  have c: "m2o_chain demo_schema ''articles'' ?path" by (simp add: demo_defs)
  have f: "\<forall>i < length ?path - 1. demo_alias (0 + i) \<noteq> [] \<and> demo_alias (0 + i) \<noteq> ''author''"
    by (simp add: demo_alias_def)
  have d: "\<forall>i < length ?path - 1. \<forall>j < length ?path - 1.
             demo_alias (0 + i) = demo_alias (0 + j) \<longrightarrow> i = j"
    by (simp add: demo_alias_def numeral_2_eq_2 All_less_Suc)
  have e: "expected_joins demo_schema demo_alias ''articles'' ''articles'' ?path 0 =
     [LeftJoin ''aaaaa'' ''authors'' ''articles.author'' ''aaaaa.id'',
      LeftJoin ''bbbbb'' ''countries'' ''aaaaa.country'' ''bbbbb.code'']"
    by (simp add: demo_defs)
  have l: "applyFilterToQuery ''bbbbb.code'' ''_eq'' (JStr ''x'') And =
     Inr [Where And (GetColumn (Some ''bbbbb'') (Some ''code'')) ''='' (Val (JStr ''x''))]"
    by (simp add: leaf_defs selection_def Let_def)
  have g: "demo_alias (0 + (length ?path - 2)) @ ''.'' @ last ?path = ''bbbbb.code''"
    by (simp add: demo_alias_def)
  have first: "applyFilter demo_schema demo_alias (JObj [(''author'', ?v)]) ''articles'' False 0 =
     Inr (2, [LeftJoin ''aaaaa'' ''authors'' ''articles.author'' ''aaaaa.id'',
            LeftJoin ''bbbbb'' ''countries'' ''aaaaa.country'' ''bbbbb.code'',
            Where And (GetColumn (Some ''bbbbb'') (Some ''code'')) ''='' (Val (JStr ''x''))])"
    using many_to_one_chain_joins[OF _ _ p _ o c f d, of False]
    unfolding g l e by simp
  have f1: "\<forall>i < length ?path - 1. demo_alias (1 + i) \<noteq> [] \<and> demo_alias (1 + i) \<noteq> ''author''"
    by (simp add: demo_alias_def)
  have d1: "\<forall>i < length ?path - 1. \<forall>j < length ?path - 1.
             demo_alias (1 + i) = demo_alias (1 + j) \<longrightarrow> i = j"
    by (simp add: demo_alias_def numeral_2_eq_2 All_less_Suc)
  note t = many_to_one_chain_joins[OF _ _ p _ o c f1 d1, where st = ?st and am = ?am
      and k = 1 and lg = Or and m = 7 and sub = False]
  have run: "addJoins_entry demo_schema False demo_alias ''author'' ?v ''articles'' ?st =
             Inr ?fin"
    by (simp add: demo_defs run_defs)
  have oc: "m2o_chain demo_schema ''articles'' ?other" by (simp add: demo_defs)
  have orec: "recorded demo_alias (aliasMap ?st) None ?other 0"
    by (simp add: demo_alias_def join_key_def)
  have old: "\<forall>j < length ?other - 1. demo_alias (0 + j) \<noteq> [] \<and> demo_alias (0 + j) \<noteq> ''author'' \<and>
               (\<forall>i < length ?path - 1. demo_alias (0 + j) \<noteq> demo_alias (1 + i))"
    by (simp add: demo_alias_def numeral_2_eq_2 All_less_Suc)
  have new: "\<forall>i < length ?path - 1. demo_alias (1 + i) \<noteq> hd ?other"
    by (simp add: demo_alias_def)
  from t have "\<exists>st'. addJoins_entry demo_schema False demo_alias ''author'' ?v ''articles'' ?st =
                 Inr st' \<and>
               (\<forall>other k.
                  m2o_chain demo_schema ''articles'' other \<and> other \<noteq> ?path \<and>
                  recorded demo_alias (aliasMap ?st) None other k \<and>
                  (\<forall>j < length other - 1. demo_alias (k + j) \<noteq> [] \<and>
                     demo_alias (k + j) \<noteq> ''author'' \<and>
                     (\<forall>i < length ?path - 1. demo_alias (k + j) \<noteq> demo_alias (1 + i))) \<and>
                  (\<forall>i < length ?path - 1. demo_alias (1 + i) \<noteq> hd other)
                    \<longrightarrow> recorded demo_alias (aliasMap st') None other k)"
    by auto
  then have keep: "\<forall>other k.
                  m2o_chain demo_schema ''articles'' other \<and> other \<noteq> ?path \<and>
                  recorded demo_alias (aliasMap ?st) None other k \<and>
                  (\<forall>j < length other - 1. demo_alias (k + j) \<noteq> [] \<and>
                     demo_alias (k + j) \<noteq> ''author'' \<and>
                     (\<forall>i < length ?path - 1. demo_alias (k + j) \<noteq> demo_alias (1 + i))) \<and>
                  (\<forall>i < length ?path - 1. demo_alias (1 + i) \<noteq> hd other)
                    \<longrightarrow> recorded demo_alias ?am None other k"
    unfolding run by simp
  have second: "recorded demo_alias ?am None ?other 0"
    using keep[rule_format, of ?other 0] oc orec old new by simp
  have rec: "recorded demo_alias ?am None ?path 1"
    by (simp add: demo_alias_def join_key_def)
  have ne: "\<forall>i < length ?path - 1. demo_alias (1 + i) \<noteq> []"
    using f1 by simp
  have l2: "applyFilterToQuery ''ccccc.code'' ''_eq'' (JStr ''x'') Or =
     Inr [Where Or (GetColumn (Some ''ccccc'') (Some ''code'')) ''='' (Val (JStr ''x''))]"
    by (simp add: leaf_defs selection_def Let_def)
  have g2: "demo_alias (1 + (length ?path - 2)) @ ''.'' @ last ?path = ''ccccc.code''"
    by (simp add: demo_alias_def)
  have third: "addWhereClauses_entry demo_schema demo_alias False ?am ''author'' ?v
                 ''articles'' Or 7 =
               Inr (7, [Where Or (GetColumn (Some ''ccccc'') (Some ''code'')) ''=''
                          (Val (JStr ''x''))])"
    using t rec ne unfolding g2 l2 by (simp add: leaf_result_def)
  from first run second third show ?thesis by simp
qed

text \<open>
  Claim C2, as stated, fails on three counts. Two leaves with the same first hop get two
  joins of the same table under two aliases, one per leaf: nothing looks for an alias
  recorded for a prefix. A last segment that is itself a relation is walked as one
  more hop: the path \<^verbatim>\<open>author.country\<close> has one hop before its column and gets two
  joins. And two leaves with the same path get two joins under two aliases, the record
  of the second walk replaces that of the first, and both predicates are on the alias
  of the second.
\<close>

theorem aliases_are_not_shared:
  "applyFilter demo_schema demo_alias
     (JObj [(''_and'', JArr
        [JObj [(''author'', JObj [(''name'', JObj [(''_eq'', JStr ''x'')])])],
         JObj [(''author'', JObj [(''id'', JObj [(''_eq'', JNum 3)])])]])])
     ''articles'' False 0 =
   Inr (2, [LeftJoin ''aaaaa'' ''authors'' ''articles.author'' ''aaaaa.id'',
            LeftJoin ''bbbbb'' ''authors'' ''articles.author'' ''bbbbb.id'',
            WhereWrapped And
              (Inr [Where And (GetColumn (Some ''aaaaa'') (Some ''name'')) ''=''
                      (Val (JStr ''x'')),
                    Where And (GetColumn (Some ''bbbbb'') (Some ''id'')) ''=''
                      (Val (JNum 3))])]) \<and>
   applyFilter demo_schema demo_alias
     (JObj [(''author'', JObj [(''country'', JObj [(''_eq'', JStr ''x'')])])])
     ''articles'' False 0 =
   Inr (2, [LeftJoin ''aaaaa'' ''authors'' ''articles.author'' ''aaaaa.id'',
            LeftJoin ''bbbbb'' ''countries'' ''aaaaa.country'' ''bbbbb.code'',
            Where And (GetColumn (Some ''aaaaa'') (Some ''country'')) ''=''
              (Val (JStr ''x''))]) \<and>
   applyFilter demo_schema demo_alias
     (JObj [(''_or'', JArr
        [JObj [(''author'', JObj [(''name'', JObj [(''_eq'', JStr ''x'')])])],
         JObj [(''author'', JObj [(''name'', JObj [(''_eq'', JStr ''y'')])])]])])
     ''articles'' False 0 =
   Inr (2, [LeftJoin ''aaaaa'' ''authors'' ''articles.author'' ''aaaaa.id'',
            LeftJoin ''bbbbb'' ''authors'' ''articles.author'' ''bbbbb.id'',
            WhereWrapped And
              (Inr [Where Or (GetColumn (Some ''bbbbb'') (Some ''name'')) ''=''
                      (Val (JStr ''x'')),
                    Where Or (GetColumn (Some ''bbbbb'') (Some ''name'')) ''=''
                      (Val (JStr ''y''))])])"
  by (simp add: demo_defs run_defs leaf_defs)

end
